theory Spec2Isabelle
  imports Main
begin

section \<open>Intrusion detection over login logs\<close>

text \<open>
  The program downloads a log of login attempts over HTTP and flags a line when its
  origin address is banned, or when its user (unless authorized) has logged in more
  than 3 times within 20 seconds. The development embeds the functions
  \<open>toSeconds\<close>, \<open>loadLookup\<close>, \<open>setupDownload\<close>, \<open>frequencyHacking\<close>,
  \<open>loginTime\<close>, \<open>processLogs\<close>, \<open>breakDownURL\<close> and \<open>main\<close> and states the
  properties of the specification over them.

  Conventions. A \<open>std::string\<close> is a \<open>string\<close>. A \<open>long\<close> timestamp and the
  \<open>int\<close> counters are \<open>int\<close>: their arithmetic is signed, where overflow has no
  defined result, and the values that occur (seconds since the epoch, line counts)
  stay far from the bounds. A \<open>size_t\<close> is a \<open>nat\<close> below \<open>2 ^ 64\<close> and its
  additions are written with the wrap-around, which \<open>breakDownURL\<close> depends on.
  An uncaught C++ exception is the \<open>Inl\<close> of a sum.
\<close>

subsection \<open>Characters and tokens\<close>

text \<open>\<open>isspace\<close>, \<open>isdigit\<close> and \<open>tolower\<close> of the C locale, the last on character codes.\<close>

definition isspace :: "char \<Rightarrow> bool" where
  "isspace c =
     (c = CHR '' '' \<or> c = CHR 0x09 \<or> c = CHR 0x0A \<or> c = CHR 0x0B \<or> c = CHR 0x0C \<or> c = CHR 0x0D)"

definition isdigit :: "char \<Rightarrow> bool" where
  "isdigit c = (48 \<le> (of_char c :: nat) \<and> (of_char c :: nat) \<le> 57)"

definition tolower :: "char \<Rightarrow> nat" where
  "tolower c =
     (if 65 \<le> (of_char c :: nat) \<and> (of_char c :: nat) \<le> 90 then of_char c + 32 else of_char c)"

text \<open>
  \<open>is >> var\<close> for a \<open>std::string\<close>. The stream is the characters not yet read with
  its \<open>eofbit\<close> and \<open>failbit\<close>. When the stream is not good, or only white space is
  left, the extraction sets \<open>failbit\<close> and \<^emph>\<open>leaves the variable as it was\<close>;
  otherwise the variable becomes the next run of non-space characters, and \<open>eofbit\<close>
  is set when that run reached the end of the input.
\<close>

record istream =
  rest :: string
  eofbit :: bool
  failbit :: bool

definition istringstream :: "string \<Rightarrow> istream" where
  "istringstream s = \<lparr>rest = s, eofbit = False, failbit = False\<rparr>"

definition read_string :: "istream \<Rightarrow> string \<Rightarrow> istream \<times> string" where
  "read_string strm var =
     (if eofbit strm \<or> failbit strm then (strm\<lparr>failbit := True\<rparr>, var)
      else (let s' = dropWhile isspace (rest strm) in
            if s' = [] then (\<lparr>rest = [], eofbit = True, failbit = True\<rparr>, var)
            else (let r = dropWhile (\<lambda>c. \<not> isspace c) s' in
                  (\<lparr>rest = r, eofbit = (r = []), failbit = False\<rparr>,
                   takeWhile (\<lambda>c. \<not> isspace c) s'))))"

subsection \<open>Timestamps\<close>

text \<open>
  The fields of \<open>struct tm\<close> that \<open>strptime\<close> writes and \<open>mktime\<close> reads.
  \<open>tm_isdst\<close> stays at the \<open>0\<close> of the initializer, \<open>tm_wday\<close> and \<open>tm_yday\<close> are
  never read.
\<close>

record tm =
  tm_sec :: int
  tm_min :: int
  tm_hour :: int
  tm_mday :: int
  tm_mon :: int
  tm_year :: int

text \<open>
  Modelled from the spec: \<open>strptime\<close> and \<open>mktime\<close> are functions of the C library,
  which is not part of the repository. The specification fixes the grammar
  (\<open><Month> <Day> <HH:MM:SS>\<close>, the month a 3-letter or full name, the day 1--2
  digits) and the result (seconds since a fixed epoch); the details below are those
  of the GNU C library, for which the program was written.

  A format is a list of directives: \<open>"%B %d %H:%M:%S"\<close> is \<open>timestamp_format\<close>.
\<close>

datatype directive = Blank | Lit char | MonthName | DayOfMonth | Hour | Minute | Second

definition timestamp_format :: "directive list" where
  "timestamp_format =
     [MonthName, Blank, DayOfMonth, Blank, Hour, Lit CHR '':'', Minute, Lit CHR '':'', Second]"

definition month_name :: "string list" where
  "month_name = [''January'', ''February'', ''March'', ''April'', ''May'', ''June'', ''July'',
     ''August'', ''September'', ''October'', ''November'', ''December'']"

definition ab_month_name :: "string list" where
  "ab_month_name = [''Jan'', ''Feb'', ''Mar'', ''Apr'', ''May'', ''Jun'', ''Jul'', ''Aug'', ''Sep'',
     ''Oct'', ''Nov'', ''Dec'']"

text \<open>\<open>match_string\<close>: the name, compared without regard to case, is a prefix of the input.\<close>

definition match_string :: "string \<Rightarrow> string \<Rightarrow> string option" where
  "match_string name rp =
     (if length name \<le> length rp \<and> map tolower (take (length name) rp) = map tolower name
      then Some (drop (length name) rp) else None)"

text \<open>The loop over the twelve months: the full name is tried before the abbreviation.\<close>

fun match_month :: "int \<Rightarrow> (string \<times> string) list \<Rightarrow> string \<Rightarrow> (int \<times> string) option" where
  "match_month cnt [] rp = None"
| "match_month cnt ((full, ab) # names) rp =
     (case match_string full rp of
        Some rp' \<Rightarrow> Some (cnt, rp')
      | None \<Rightarrow>
          (case match_string ab rp of
             Some rp' \<Rightarrow> Some (cnt, rp')
           | None \<Rightarrow> match_month (cnt + 1) names rp))"

text \<open>
  \<open>get_number(from, to, n)\<close>: white space is skipped, a digit is required, then at most
  \<open>n\<close> digits are read, stopping early when another digit would pass \<open>to\<close>; the value
  must lie in \<open>from..to\<close>. \<open>get_digits\<close> is the \<open>do ... while\<close> loop, entered on a digit.
\<close>

fun get_digits :: "nat \<Rightarrow> int \<Rightarrow> int \<Rightarrow> string \<Rightarrow> int \<times> string" where
  "get_digits n to val [] = (val, [])"
| "get_digits n to val (c # rp) =
     (let val' = val * 10 + (of_char c - 48) in
      if 0 < n - 1 \<and> val' * 10 \<le> to \<and> rp \<noteq> [] \<and> isdigit (hd rp)
      then get_digits (n - 1) to val' rp
      else (val', rp))"

definition get_number :: "int \<Rightarrow> int \<Rightarrow> nat \<Rightarrow> string \<Rightarrow> (int \<times> string) option" where
  "get_number from to n rp =
     (let rp1 = dropWhile isspace rp in
      if rp1 = [] \<or> \<not> isdigit (hd rp1) then None
      else (case get_digits n to 0 rp1 of
              (val, rp2) \<Rightarrow> if val < from \<or> to < val then None else Some (val, rp2)))"

text \<open>
  \<open>strptime\<close> returns the structure as far as it was filled, and the rest of the
  input, or \<open>None\<close> for the null pointer of a mismatch. Fields read before a mismatch
  stay written.
\<close>

fun strptime :: "string \<Rightarrow> directive list \<Rightarrow> tm \<Rightarrow> tm \<times> string option" where
  "strptime rp [] t = (t, Some rp)"
| "strptime rp (Blank # fmt) t = strptime (dropWhile isspace rp) fmt t"
| "strptime rp (Lit ch # fmt) t =
     (case rp of
        [] \<Rightarrow> (t, None)
      | c # rp' \<Rightarrow> if c = ch then strptime rp' fmt t else (t, None))"
| "strptime rp (MonthName # fmt) t =
     (case match_month 0 (zip month_name ab_month_name) rp of
        None \<Rightarrow> (t, None)
      | Some (cnt, rp') \<Rightarrow> strptime rp' fmt (t\<lparr>tm_mon := cnt\<rparr>))"
| "strptime rp (DayOfMonth # fmt) t =
     (case get_number 1 31 2 rp of
        None \<Rightarrow> (t, None)
      | Some (v, rp') \<Rightarrow> strptime rp' fmt (t\<lparr>tm_mday := v\<rparr>))"
| "strptime rp (Hour # fmt) t =
     (case get_number 0 23 2 rp of
        None \<Rightarrow> (t, None)
      | Some (v, rp') \<Rightarrow> strptime rp' fmt (t\<lparr>tm_hour := v\<rparr>))"
| "strptime rp (Minute # fmt) t =
     (case get_number 0 59 2 rp of
        None \<Rightarrow> (t, None)
      | Some (v, rp') \<Rightarrow> strptime rp' fmt (t\<lparr>tm_min := v\<rparr>))"
| "strptime rp (Second # fmt) t =
     (case get_number 0 61 2 rp of
        None \<Rightarrow> (t, None)
      | Some (v, rp') \<Rightarrow> strptime rp' fmt (t\<lparr>tm_sec := v\<rparr>))"

text \<open>
  \<open>mktime\<close>: the fields, which need not be in range, are counted out as days since
  1970-01-01 and seconds of the day. With \<open>tm_isdst = 0\<close> the fields are read as the
  local zone's standard time, so the environment enters as \<open>gmtoff\<close>, the seconds
  that standard time is ahead of UTC, the same for the whole run.
\<close>

definition leapyear :: "int \<Rightarrow> bool" where
  "leapyear y = (y mod 4 = 0 \<and> (y mod 100 \<noteq> 0 \<or> y mod 400 = 0))"

definition leaps_before :: "int \<Rightarrow> int" where
  "leaps_before y = (y - 1) div 4 - (y - 1) div 100 + (y - 1) div 400"

definition mon_yday :: "bool \<Rightarrow> nat \<Rightarrow> int" where
  "mon_yday leap m =
     [0, 31, 59, 90, 120, 151, 181, 212, 243, 273, 304, 334] ! m + (if leap \<and> 2 \<le> m then 1 else 0)"

definition mktime :: "int \<Rightarrow> tm \<Rightarrow> int" where
  "mktime gmtoff t =
     (let mon_remainder = tm_mon t mod 12;
          mon_years = tm_mon t div 12;
          year = tm_year t + 1900 + mon_years;
          yday = mon_yday (leapyear year) (nat mon_remainder) + tm_mday t - 1;
          days = 365 * (year - 1970) + (leaps_before year - leaps_before 1970) + yday
      in ((days * 24 + tm_hour t) * 60 + tm_min t) * 60 + tm_sec t - gmtoff)"

text \<open>
  \<open>toSeconds\<close>: the result of \<open>strptime\<close> is not looked at; \<open>mktime\<close> is applied to
  whatever the structure holds. The year defaults to 2021 at the call.
\<close>

definition toSeconds :: "int \<Rightarrow> string \<Rightarrow> int \<Rightarrow> int" where
  "toSeconds gmtoff timestamp year =
     (let tstamp = \<lparr>tm_sec = 0, tm_min = 0, tm_hour = 0, tm_mday = 0, tm_mon = 0,
                     tm_year = year - 1900\<rparr>
      in mktime gmtoff (fst (strptime timestamp timestamp_format tstamp)))"

subsection \<open>Login history and the frequency rule\<close>

type_synonym LookupMap = "string \<rightharpoonup> bool"

type_synonym LoginTimes = "string \<rightharpoonup> int list"

text \<open>\<open>loginTimes[userID]\<close>: a missing key is inserted with an empty vector.\<close>

definition subscript :: "LoginTimes \<Rightarrow> string \<Rightarrow> LoginTimes \<times> int list" where
  "subscript loginTimes userID =
     (case loginTimes userID of
        None \<Rightarrow> (loginTimes(userID \<mapsto> []), [])
      | Some v \<Rightarrow> (loginTimes, v))"

definition frequencyHacking :: "LoginTimes \<Rightarrow> LookupMap \<Rightarrow> string \<Rightarrow> LoginTimes \<times> bool" where
  "frequencyHacking loginTimes authorizedUsers userID =
     (if authorizedUsers userID = None then
        (case subscript loginTimes userID of
           (loginTimes', v) \<Rightarrow>
             if 3 < length v then
               (let i = length v - 1 in (loginTimes', v ! i - v ! (i - 3) \<le> 20))
             else (loginTimes', False))
      else (loginTimes, False))"

definition loginTime ::
  "int \<Rightarrow> string \<Rightarrow> string \<Rightarrow> string \<Rightarrow> string \<Rightarrow> LoginTimes \<Rightarrow> LoginTimes" where
  "loginTime gmtoff month day time userID loginTimes =
     (let timeStamp = month @ '' '' @ day @ '' '' @ time;
          seconds = toSeconds gmtoff timeStamp 2021
      in case loginTimes userID of
           None \<Rightarrow> loginTimes(userID \<mapsto> [seconds])
         | Some v \<Rightarrow> loginTimes(userID \<mapsto> v @ [seconds]))"

subsection \<open>Processing the log\<close>

text \<open>
  What the program prints, one value per output line:
  \<open>Usage\<close> is \<open>Specify URL from where logs are to be obtained.\<close>,
  \<open>BannedIP line\<close> is \<open>Hacking due to banned IP. Line: <line>\<close>,
  \<open>Frequency line\<close> is \<open>Hacking due to frequency. Line: <line>\<close> and
  \<open>Summary n m\<close> is \<open>Processed <n> lines. Found <m> possible hacking attempts.\<close>
\<close>

datatype message = Usage | BannedIP string | Frequency string | Summary int int

text \<open>
  The local variables of \<open>processLogs\<close>. The strings are declared once, before the
  loop, and start empty; \<open>cout\<close> is what has been printed so far.
\<close>

record vars =
  month :: string
  day :: string
  time :: string
  userID :: string
  ip :: string
  dummy :: string
  lineCount :: int
  hackCount :: int
  loginTimes :: LoginTimes
  cout :: "message list"

text \<open>
  The extraction statement: eleven fields are read from the line into the variables,
  \<open>month day time dummy dummy dummy dummy dummy userID dummy ip\<close> in this order.
\<close>

definition read_fields :: "string \<Rightarrow> vars \<Rightarrow> vars" where
  "read_fields line v =
     (case read_string (istringstream line) (month v) of (s1, month') \<Rightarrow>
      case read_string s1 (day v) of (s2, day') \<Rightarrow>
      case read_string s2 (time v) of (s3, time') \<Rightarrow>
      case read_string s3 (dummy v) of (s4, d4) \<Rightarrow>
      case read_string s4 d4 of (s5, d5) \<Rightarrow>
      case read_string s5 d5 of (s6, d6) \<Rightarrow>
      case read_string s6 d6 of (s7, d7) \<Rightarrow>
      case read_string s7 d7 of (s8, d8) \<Rightarrow>
      case read_string s8 (userID v) of (s9, userID') \<Rightarrow>
      case read_string s9 d8 of (s10, d10) \<Rightarrow>
      case read_string s10 (ip v) of (s11, ip') \<Rightarrow>
        v\<lparr>month := month', day := day', time := time', userID := userID', ip := ip',
          dummy := d10\<rparr>)"

text \<open>The body of the \<open>while (std::getline(is, line))\<close> loop.\<close>

definition loop_body :: "int \<Rightarrow> LookupMap \<Rightarrow> LookupMap \<Rightarrow> string \<Rightarrow> vars \<Rightarrow> vars" where
  "loop_body gmtoff bannedIPs authorizedUsers line v0 =
     (let v = read_fields line v0;
          v' =
            (if bannedIPs (ip v) \<noteq> None then
               v\<lparr>hackCount := hackCount v + 1, cout := cout v @ [BannedIP line]\<rparr>
             else
               (case frequencyHacking
                       (loginTime gmtoff (month v) (day v) (time v) (userID v) (loginTimes v))
                       authorizedUsers (userID v) of
                  (loginTimes', isViolation) \<Rightarrow>
                    if isViolation then
                      v\<lparr>loginTimes := loginTimes', hackCount := hackCount v + 1,
                        cout := cout v @ [Frequency line]\<rparr>
                    else v\<lparr>loginTimes := loginTimes'\<rparr>))
      in v'\<lparr>lineCount := lineCount v' + 1\<rparr>)"

fun while_getline :: "int \<Rightarrow> LookupMap \<Rightarrow> LookupMap \<Rightarrow> string list \<Rightarrow> vars \<Rightarrow> vars" where
  "while_getline gmtoff bannedIPs authorizedUsers [] v = v"
| "while_getline gmtoff bannedIPs authorizedUsers (line # lines) v =
     while_getline gmtoff bannedIPs authorizedUsers lines
       (loop_body gmtoff bannedIPs authorizedUsers line v)"

definition initial_vars :: vars where
  "initial_vars =
     \<lparr>month = [], day = [], time = [], userID = [], ip = [], dummy = [], lineCount = 0,
      hackCount = 0, loginTimes = Map.empty, cout = []\<rparr>"

text \<open>
  \<open>processLogs\<close> on the lines that \<open>std::getline\<close> returns from the stream; the result
  is everything printed, the summary last.
\<close>

definition processLogs :: "int \<Rightarrow> string list \<Rightarrow> LookupMap \<Rightarrow> LookupMap \<Rightarrow> message list" where
  "processLogs gmtoff lines bannedIPs authorizedUsers =
     (let v = while_getline gmtoff bannedIPs authorizedUsers lines initial_vars
      in cout v @ [Summary (lineCount v) (hackCount v)])"

subsection \<open>URLs\<close>

datatype error = OutOfRange | RuntimeError string

definition npos :: nat where
  "npos = 18446744073709551615"

text \<open>Addition of \<open>size_t\<close> values, modulo \<open>2 ^ 64\<close>.\<close>

definition size_add :: "nat \<Rightarrow> nat \<Rightarrow> nat" where
  "size_add a b = (a + b) mod 18446744073709551616"

text \<open>\<open>s.find(pat)\<close>: the first position where \<open>pat\<close> starts, or \<open>npos\<close>.\<close>

fun search :: "string \<Rightarrow> string \<Rightarrow> nat option" where
  "search pat [] = (if pat = [] then Some 0 else None)"
| "search pat (c # s) =
     (if take (length pat) (c # s) = pat then Some 0 else map_option Suc (search pat s))"

definition find_str :: "string \<Rightarrow> string \<Rightarrow> nat" where
  "find_str s pat = (case search pat s of None \<Rightarrow> npos | Some i \<Rightarrow> i)"

definition find_chr :: "string \<Rightarrow> char \<Rightarrow> nat" where
  "find_chr s c = find_str s [c]"

text \<open>
  \<open>s.substr(pos, n)\<close> throws \<open>std::out_of_range\<close> when \<open>pos\<close> is past the end, and is
  otherwise the at most \<open>n\<close> characters from \<open>pos\<close> on; \<open>n\<close> defaults to \<open>npos\<close>.
\<close>

definition substr :: "string \<Rightarrow> nat \<Rightarrow> nat \<Rightarrow> error + string" where
  "substr s pos n = (if length s < pos then Inl OutOfRange else Inr (take n (drop pos s)))"

text \<open>
  \<open>breakDownURL\<close>. \<open>start\<close> is \<open>url.find("//") + 2\<close>, computed in \<open>size_t\<close>. The
  port starts as \<open>"80"\<close> and is replaced when the host part holds a colon. The path
  starts as \<open>"/"\<close> but is assigned \<open>hostName.substr(hostName.find('/'))\<close> on every
  path through the function, so that initial value is never returned and does not
  appear below. The inner conditional yields \<open>end\<close> and the port.
\<close>

definition breakDownURL :: "string \<Rightarrow> error + (string \<times> string \<times> string)" where
  "breakDownURL url =
     (let start = size_add (find_str url ''//'') 2 in
      case substr url start npos of
        Inl e \<Rightarrow> Inl e
      | Inr hostName \<Rightarrow>
          (case (if find_chr hostName CHR '':'' \<noteq> npos then
                   (let end' = find_chr hostName CHR '':'' in
                    case substr hostName (size_add end' 1) npos of
                      Inl e \<Rightarrow> Inl e
                    | Inr port \<Rightarrow>
                        (case substr port 0 (find_chr port CHR ''/'') of
                           Inl e \<Rightarrow> Inl e
                         | Inr port' \<Rightarrow> Inr (end', port')))
                 else Inr (find_chr hostName CHR ''/'', ''80'')) of
             Inl e \<Rightarrow> Inl e
           | Inr (end', port) \<Rightarrow>
               (case substr hostName (find_chr hostName CHR ''/'') npos of
                  Inl e \<Rightarrow> Inl e
                | Inr path \<Rightarrow>
                    (case substr hostName 0 end' of
                       Inl e \<Rightarrow> Inl e
                     | Inr hostName' \<Rightarrow> Inr (hostName', port, path)))))"

subsection \<open>The program\<close>

text \<open>
  What the program finds around it: the zone of the clock, the files it can open, and
  the network. \<open>server w host port request\<close> is the lines that \<open>std::getline\<close> reads
  back after \<open>request\<close> was written to \<open>host:port\<close>, none when the connection could
  not be made (the stream is then in its error state and every read fails).
\<close>

record world =
  gmtoff :: int
  files :: "string \<rightharpoonup> string"
  server :: "string \<Rightarrow> string \<Rightarrow> string \<Rightarrow> string list"

text \<open>The loop of \<open>loadLookup\<close>: every word of the file becomes a key.\<close>

function load_entries :: "istream \<Rightarrow> string \<Rightarrow> LookupMap \<Rightarrow> LookupMap" where
  "load_entries strm entry lookup =
     (case read_string strm entry of
        (strm', entry') \<Rightarrow>
          if failbit strm' then lookup else load_entries strm' entry' (lookup(entry' \<mapsto> True)))"
  by pat_completeness auto

text \<open>
  \<open>loadLookup\<close> throws \<open>std::runtime_error\<close> when the file cannot be opened.
\<close>

definition loadLookup :: "world \<Rightarrow> string \<Rightarrow> error + LookupMap" where
  "loadLookup w fileName =
     (case files w fileName of
        None \<Rightarrow> Inl (RuntimeError (''Error opening file '' @ fileName))
      | Some content \<Rightarrow> Inr (load_entries (istringstream content) [] Map.empty))"

text \<open>
  The \<open>tcp::iostream\<close> after \<open>setupDownload\<close>: where it was connected, what was
  written to it, and the lines it gives back.
\<close>

record iostream =
  peer :: "string \<times> string"
  sent :: string
  received :: "string list"

definition crlf :: string where
  "crlf = [CHR 0x0D, CHR 0x0A]"

definition setupDownload :: "world \<Rightarrow> string \<Rightarrow> string \<Rightarrow> string \<Rightarrow> iostream" where
  "setupDownload w hostName path port =
     (let request = ''GET '' @ path @ '' HTTP/1.1'' @ crlf @ ''Host: '' @ hostName @ crlf @
                    ''Connection: Close'' @ crlf @ crlf
      in \<lparr>peer = (hostName, port), sent = request,
          received = server w hostName port request\<rparr>)"

text \<open>
  The header loop of \<open>main\<close>: lines are read up to and including the first that is
  empty or a lone carriage return.
\<close>

fun skip_headers :: "string list \<Rightarrow> string list" where
  "skip_headers [] = []"
| "skip_headers (hdr # lines) =
     (if hdr \<noteq> [] \<and> hdr \<noteq> [CHR 0x0D] then skip_headers lines else lines)"

text \<open>
  A run ends by returning from \<open>main\<close> or, on an exception that nothing catches, in
  \<open>std::terminate\<close>. \<open>connections\<close> lists the \<open>(host, port)\<close> pairs the program
  connected to.
\<close>

datatype exit = Returned int | Terminated error

record outcome =
  status :: exit
  connections :: "(string \<times> string) list"
  printed :: "message list"

text \<open>
  \<open>main\<close> on \<open>argv\<close>, the program's name first. \<open>setupDownload\<close> is called with the
  host and the path only, so its port is the default of its declaration, \<open>"80"\<close>.
\<close>

definition main :: "world \<Rightarrow> string list \<Rightarrow> outcome" where
  "main w argv =
     (if length argv < 2 then
        \<lparr>status = Returned 1, connections = [], printed = [Usage]\<rparr>
      else
        (case breakDownURL (argv ! 1) of
           Inl e \<Rightarrow> \<lparr>status = Terminated e, connections = [], printed = []\<rparr>
         | Inr (host, port, path) \<Rightarrow>
             (let is = setupDownload w host path ''80'';
                  body = skip_headers (received is)
              in case loadLookup w ''banned_ips.txt'' of
                   Inl e \<Rightarrow> \<lparr>status = Terminated e, connections = [peer is], printed = []\<rparr>
                 | Inr bannedIPs \<Rightarrow>
                     (case loadLookup w ''authorized_users.txt'' of
                        Inl e \<Rightarrow>
                          \<lparr>status = Terminated e, connections = [peer is], printed = []\<rparr>
                      | Inr authorizedUsers \<Rightarrow>
                          \<lparr>status = Returned 0, connections = [peer is],
                           printed = processLogs (gmtoff w) body bannedIPs authorizedUsers\<rparr>))))"

subsection \<open>Notions used in the statements\<close>

text \<open>
  The white-space delimited fields of a line, in order, and the \<open>i\<close>-th of them, or
  \<open>old\<close> when the line has no such field.
\<close>

function tokens :: "string \<Rightarrow> string list" where
  "tokens s =
     (if dropWhile isspace s = [] then []
      else takeWhile (\<lambda>c. \<not> isspace c) (dropWhile isspace s) #
           tokens (dropWhile (\<lambda>c. \<not> isspace c) (dropWhile isspace s)))"
  by pat_completeness auto

definition field :: "string list \<Rightarrow> nat \<Rightarrow> string \<Rightarrow> string" where
  "field ts i old = (if i < length ts then ts ! i else old)"

text \<open>The words a stream has still to give.\<close>

definition pending :: "istream \<Rightarrow> string list" where
  "pending strm = (if eofbit strm \<or> failbit strm then [] else tokens (rest strm))"

text \<open>
  What \<open>strptime\<close> makes of a timestamp inside \<open>toSeconds\<close>: the structure and
  whether the whole format was matched.
\<close>

definition parse_timestamp :: "string \<Rightarrow> int \<Rightarrow> tm \<times> string option" where
  "parse_timestamp timestamp year =
     strptime timestamp timestamp_format
       \<lparr>tm_sec = 0, tm_min = 0, tm_hour = 0, tm_mday = 0, tm_mon = 0, tm_year = year - 1900\<rparr>"

text \<open>
  The calendar. A structure is a time of the assumed year when its day exists in its
  month and its clock fields are those of a day; \<open>earlier\<close> is the chronological
  order of two such times, and \<open>second_of_year\<close> counts the seconds since the year
  began, summing the lengths of the months before.
\<close>

definition month_lengths :: "int \<Rightarrow> int list" where
  "month_lengths year =
     [31, if leapyear year then 29 else 28, 31, 30, 31, 30, 31, 31, 30, 31, 30, 31]"

definition calendar_time :: "int \<Rightarrow> tm \<Rightarrow> bool" where
  "calendar_time year t =
     (0 \<le> tm_mon t \<and> tm_mon t \<le> 11 \<and>
      1 \<le> tm_mday t \<and> tm_mday t \<le> month_lengths year ! nat (tm_mon t) \<and>
      0 \<le> tm_hour t \<and> tm_hour t \<le> 23 \<and>
      0 \<le> tm_min t \<and> tm_min t \<le> 59 \<and>
      0 \<le> tm_sec t \<and> tm_sec t \<le> 59)"

definition earlier :: "tm \<Rightarrow> tm \<Rightarrow> bool" where
  "earlier t t' =
     (tm_mon t < tm_mon t' \<or> tm_mon t = tm_mon t' \<and>
       (tm_mday t < tm_mday t' \<or> tm_mday t = tm_mday t' \<and>
         (tm_hour t < tm_hour t' \<or> tm_hour t = tm_hour t' \<and>
           (tm_min t < tm_min t' \<or> tm_min t = tm_min t' \<and> tm_sec t < tm_sec t'))))"

definition second_of_year :: "int \<Rightarrow> tm \<Rightarrow> int" where
  "second_of_year year t =
     (((sum_list (take (nat (tm_mon t)) (month_lengths year)) + (tm_mday t - 1)) * 24
        + tm_hour t) * 60 + tm_min t) * 60 + tm_sec t"

text \<open>The ranges that \<open>strptime\<close> keeps the fields in, matched or not.\<close>

definition in_range :: "tm \<Rightarrow> bool" where
  "in_range t =
     (0 \<le> tm_mon t \<and> tm_mon t \<le> 11 \<and> 0 \<le> tm_mday t \<and> tm_mday t \<le> 31 \<and>
      0 \<le> tm_hour t \<and> tm_hour t \<le> 23 \<and> 0 \<le> tm_min t \<and> tm_min t \<le> 59 \<and>
      0 \<le> tm_sec t \<and> tm_sec t \<le> 61)"

text \<open>Midnight of January 1st of a year, in seconds since the epoch (UTC).\<close>

definition year_start :: "int \<Rightarrow> int" where
  "year_start year = 86400 * (365 * (year - 1970) + (leaps_before year - leaps_before 1970))"

text \<open>The two kinds of flag among the printed messages.\<close>

fun bannedIP_flag :: "message \<Rightarrow> bool" where
  "bannedIP_flag (BannedIP line) = True"
| "bannedIP_flag m = False"

fun frequency_flag :: "message \<Rightarrow> bool" where
  "frequency_flag (Frequency line) = True"
| "frequency_flag m = False"

definition flags :: "message list \<Rightarrow> int" where
  "flags ms = int (length (filter bannedIP_flag ms)) + int (length (filter frequency_flag ms))"

subsection \<open>Sample input\<close>

text \<open>A log line of the expected eleven fields, for the examples.\<close>

definition login_line :: "string \<Rightarrow> string \<Rightarrow> string \<Rightarrow> string" where
  "login_line clock user addr =
     ''Jun 10 '' @ clock @ '' srv sshd: Failed password for '' @ user @ '' from '' @ addr"

text \<open>
  A world for the examples: two lookup files of one word each, and a server that
  answers every request with two header lines, the blank line and one login from
  \<open>10.0.0.5\<close>.
\<close>

definition sample_world :: world where
  "sample_world =
     \<lparr>gmtoff = 0,
      files = [''banned_ips.txt'' \<mapsto> ''10.0.0.5'' @ [CHR 0x0A],
               ''authorized_users.txt'' \<mapsto> ''alice'' @ [CHR 0x0A]],
      server = (\<lambda>host port request.
        [''HTTP/1.1 200 OK'' @ [CHR 0x0D], ''Content-Type: text/plain'' @ [CHR 0x0D], [CHR 0x0D],
         login_line ''10:00:00'' ''bob'' ''10.0.0.5''])\<rparr>"

section \<open>Properties\<close>

subsection \<open>Reading words\<close>

lemma dropWhile_nonspace_shorter:
  "s \<noteq> [] \<Longrightarrow> \<not> isspace (hd s) \<Longrightarrow> length (dropWhile (\<lambda>c. \<not> isspace c) s) < length s"
  by (cases s) (auto simp: less_Suc_eq_le length_dropWhile_le)

lemma hd_dropWhile_isspace:
  "dropWhile isspace s \<noteq> [] \<Longrightarrow> \<not> isspace (hd (dropWhile isspace s))"
  by (simp add: hd_dropWhile)

lemma read_string_fail:
  "eofbit strm \<or> failbit strm \<or> dropWhile isspace (rest strm) = [] \<Longrightarrow>
   failbit (fst (read_string strm var)) \<and> snd (read_string strm var) = var"
  by (auto simp: read_string_def Let_def)

lemma read_string_token:
  "\<not> eofbit strm \<Longrightarrow> \<not> failbit strm \<Longrightarrow> dropWhile isspace (rest strm) \<noteq> [] \<Longrightarrow>
   read_string strm var =
     (\<lparr>rest = dropWhile (\<lambda>c. \<not> isspace c) (dropWhile isspace (rest strm)),
       eofbit = (dropWhile (\<lambda>c. \<not> isspace c) (dropWhile isspace (rest strm)) = []),
       failbit = False\<rparr>,
      takeWhile (\<lambda>c. \<not> isspace c) (dropWhile isspace (rest strm)))"
  by (simp add: read_string_def Let_def)

lemma read_string_consumes:
  assumes "read_string strm var = (strm', var')" and "\<not> failbit strm'"
  shows "length (rest strm') < length (rest strm)"
proof -
  let ?s = "dropWhile isspace (rest strm)"
  have ok: "\<not> eofbit strm" "\<not> failbit strm" "?s \<noteq> []"
    using assms read_string_fail [of strm var] by auto
  then have "rest strm' = dropWhile (\<lambda>c. \<not> isspace c) ?s"
    using assms(1) read_string_token [of strm var] by auto
  moreover have "length (dropWhile (\<lambda>c. \<not> isspace c) ?s) < length ?s"
    using ok(3) by (intro dropWhile_nonspace_shorter hd_dropWhile_isspace)
  moreover have "length ?s \<le> length (rest strm)"
    by (rule length_dropWhile_le)
  ultimately show ?thesis by simp
qed

text \<open>The loop of \<open>loadLookup\<close> ends: every successful read shortens the input.\<close>

termination load_entries
proof (relation "measure (\<lambda>(strm, entry, lookup). length (rest strm))")
  show "wf (measure (\<lambda>(strm, entry, lookup). length (rest strm)))" by simp
next
  fix strm :: istream and entry :: string and lookup :: LookupMap and x y
  assume "(x, y) = read_string strm entry" and "\<not> failbit x"
  then have "length (rest x) < length (rest strm)"
    using read_string_consumes [of strm entry x y] by simp
  then show "((x, y, lookup(y \<mapsto> True)), (strm, entry, lookup))
      \<in> measure (\<lambda>(strm, entry, lookup). length (rest strm))"
    by simp
qed

text \<open>The fields of a line: every read takes the next field, or fails.\<close>

declare load_entries.simps [simp del]

termination tokens
proof (relation "measure length")
  show "wf (measure length)" by simp
next
  fix s :: string
  assume ne: "dropWhile isspace s \<noteq> []"
  have "length (dropWhile (\<lambda>c. \<not> isspace c) (dropWhile isspace s)) < length (dropWhile isspace s)"
    using ne by (intro dropWhile_nonspace_shorter hd_dropWhile_isspace)
  moreover have "length (dropWhile isspace s) \<le> length s"
    by (rule length_dropWhile_le)
  ultimately show "(dropWhile (\<lambda>c. \<not> isspace c) (dropWhile isspace s), s) \<in> measure length"
    by simp
qed

declare tokens.simps [simp del]

lemma tokens_Nil: "tokens [] = []"
  by (simp add: tokens.simps)

lemma pending_after_word:
  "pending \<lparr>rest = r, eofbit = (r = []), failbit = False\<rparr> = tokens r"
  by (cases r) (simp_all add: pending_def tokens_Nil)

lemma read_string_pending:
  "snd (read_string strm var) = field (pending strm) 0 var \<and>
   pending (fst (read_string strm var)) = tl (pending strm)"
proof (cases "eofbit strm \<or> failbit strm")
  case True
  then show ?thesis by (auto simp: read_string_def pending_def field_def)
next
  case good: False
  show ?thesis
  proof (cases "dropWhile isspace (rest strm) = []")
    case True
    then have "tokens (rest strm) = []" by (subst tokens.simps) simp
    with good True show ?thesis by (simp add: read_string_def pending_def field_def)
  next
    case False
    let ?r = "dropWhile (\<lambda>c. \<not> isspace c) (dropWhile isspace (rest strm))"
    have t: "tokens (rest strm) = takeWhile (\<lambda>c. \<not> isspace c) (dropWhile isspace (rest strm)) # tokens ?r"
      using False by (subst tokens.simps) simp
    have rs: "read_string strm var =
        (\<lparr>rest = ?r, eofbit = (?r = []), failbit = False\<rparr>,
         takeWhile (\<lambda>c. \<not> isspace c) (dropWhile isspace (rest strm)))"
      using good False by (intro read_string_token) simp_all
    have p1: "pending (fst (read_string strm var)) = tokens ?r"
      by (simp only: rs fst_conv pending_after_word)
    have p2: "snd (read_string strm var) =
        takeWhile (\<lambda>c. \<not> isspace c) (dropWhile isspace (rest strm))"
      by (simp only: rs snd_conv)
    have p3: "pending strm = tokens (rest strm)"
      using good by (simp add: pending_def)
    show ?thesis
      by (simp add: p1 p2 p3 t field_def)
  qed
qed

lemma read_string_drop:
  assumes "pending strm = drop k ts"
  shows "read_string strm var = (fst (read_string strm var), field ts k var)"
    and "pending (fst (read_string strm var)) = drop (k + 1) ts"
proof -
  have "field (drop k ts) 0 var = field ts k var"
    by (auto simp: field_def)
  then show "read_string strm var = (fst (read_string strm var), field ts k var)"
    using read_string_pending [of strm var] assms by (simp add: prod_eq_iff)
  show "pending (fst (read_string strm var)) = drop (k + 1) ts"
    using read_string_pending [of strm var] assms by (simp add: drop_Suc tl_drop)
qed

lemma read_fields_tokens:
  "read_fields line v =
     v\<lparr>month := field (tokens line) 0 (month v), day := field (tokens line) 1 (day v),
       time := field (tokens line) 2 (time v), userID := field (tokens line) 8 (userID v),
       ip := field (tokens line) 10 (ip v),
       dummy := field (tokens line) 9 (field (tokens line) 7 (field (tokens line) 6
                  (field (tokens line) 5 (field (tokens line) 4
                    (field (tokens line) 3 (dummy v))))))\<rparr>"
proof -
  let ?ts = "tokens line"
  define d4 where "d4 = field ?ts 3 (dummy v)"
  define d5 where "d5 = field ?ts 4 d4"
  define d6 where "d6 = field ?ts 5 d5"
  define d7 where "d7 = field ?ts 6 d6"
  define d8 where "d8 = field ?ts 7 d7"
  define s0 where "s0 = istringstream line"
  have p0: "pending s0 = drop 0 ?ts"
    by (simp add: s0_def pending_def istringstream_def)
  define s1 where "s1 = fst (read_string s0 (month v))"
  have r1: "read_string s0 (month v) = (s1, field ?ts 0 (month v))"
    and p1: "pending s1 = drop 1 ?ts"
    using read_string_drop [OF p0, of "month v"] by (simp_all add: s1_def eval_nat_numeral)
  define s2 where "s2 = fst (read_string s1 (day v))"
  have r2: "read_string s1 (day v) = (s2, field ?ts 1 (day v))"
    and p2: "pending s2 = drop 2 ?ts"
    using read_string_drop [OF p1, of "day v"] by (simp_all add: s2_def eval_nat_numeral)
  define s3 where "s3 = fst (read_string s2 (time v))"
  have r3: "read_string s2 (time v) = (s3, field ?ts 2 (time v))"
    and p3: "pending s3 = drop 3 ?ts"
    using read_string_drop [OF p2, of "time v"] by (simp_all add: s3_def eval_nat_numeral)
  define s4 where "s4 = fst (read_string s3 (dummy v))"
  have r4: "read_string s3 (dummy v) = (s4, field ?ts 3 (dummy v))"
    and p4: "pending s4 = drop 4 ?ts"
    using read_string_drop [OF p3, of "dummy v"] by (simp_all add: s4_def eval_nat_numeral)
  define s5 where "s5 = fst (read_string s4 (d4))"
  have r5: "read_string s4 (d4) = (s5, field ?ts 4 (d4))"
    and p5: "pending s5 = drop 5 ?ts"
    using read_string_drop [OF p4, of "d4"] by (simp_all add: s5_def eval_nat_numeral)
  define s6 where "s6 = fst (read_string s5 (d5))"
  have r6: "read_string s5 (d5) = (s6, field ?ts 5 (d5))"
    and p6: "pending s6 = drop 6 ?ts"
    using read_string_drop [OF p5, of "d5"] by (simp_all add: s6_def eval_nat_numeral)
  define s7 where "s7 = fst (read_string s6 (d6))"
  have r7: "read_string s6 (d6) = (s7, field ?ts 6 (d6))"
    and p7: "pending s7 = drop 7 ?ts"
    using read_string_drop [OF p6, of "d6"] by (simp_all add: s7_def eval_nat_numeral)
  define s8 where "s8 = fst (read_string s7 (d7))"
  have r8: "read_string s7 (d7) = (s8, field ?ts 7 (d7))"
    and p8: "pending s8 = drop 8 ?ts"
    using read_string_drop [OF p7, of "d7"] by (simp_all add: s8_def eval_nat_numeral)
  define s9 where "s9 = fst (read_string s8 (userID v))"
  have r9: "read_string s8 (userID v) = (s9, field ?ts 8 (userID v))"
    and p9: "pending s9 = drop 9 ?ts"
    using read_string_drop [OF p8, of "userID v"] by (simp_all add: s9_def eval_nat_numeral)
  define s10 where "s10 = fst (read_string s9 (d8))"
  have r10: "read_string s9 (d8) = (s10, field ?ts 9 (d8))"
    and p10: "pending s10 = drop 10 ?ts"
    using read_string_drop [OF p9, of "d8"] by (simp_all add: s10_def eval_nat_numeral)
  define s11 where "s11 = fst (read_string s10 (ip v))"
  have r11: "read_string s10 (ip v) = (s11, field ?ts 10 (ip v))"
    and p11: "pending s11 = drop 11 ?ts"
    using read_string_drop [OF p10, of "ip v"] by (simp_all add: s11_def eval_nat_numeral)
  show ?thesis
    unfolding read_fields_def s0_def [symmetric]
    by (simp add: r1 r2 r3 r4 r5 r6 r7 r8 r9 r10 r11
        d4_def [symmetric] d5_def [symmetric] d6_def [symmetric] d7_def [symmetric]
        d8_def [symmetric])
qed

subsection \<open>The frequency rule\<close>

lemmas timestamp_defs = toSeconds_def timestamp_format_def month_name_def ab_month_name_def
  match_string_def tolower_def get_number_def isspace_def isdigit_def mktime_def
  leapyear_def leaps_before_def mon_yday_def

lemma loginTime_same:
  "loginTime z m d c u lt u =
     Some ((case lt u of None \<Rightarrow> [] | Some v \<Rightarrow> v) @ [toSeconds z (m @ '' '' @ d @ '' '' @ c) 2021])"
  by (simp add: loginTime_def Let_def split: option.splits)

text \<open>
  Claim C3. A user of the authorized set is never reported by the frequency query,
  whatever the login history holds; the history is left as it was.
\<close>

theorem authorized_never_flagged:
  "auth u \<noteq> None \<Longrightarrow> frequencyHacking lt auth u = (lt, False)"
  by (auto simp: frequencyHacking_def)

text \<open>Four logins of an authorized user within three seconds are not reported.\<close>

theorem authorized_never_flagged_witness:
  "[''bob'' \<mapsto> True] ''bob'' \<noteq> None \<and>
   frequencyHacking [''bob'' \<mapsto> [100, 101, 102, 103]] [''bob'' \<mapsto> True] ''bob'' =
     ([''bob'' \<mapsto> [100, 101, 102, 103]], False)"
  using authorized_never_flagged
    [of "[''bob'' \<mapsto> True]" "''bob''" "[''bob'' \<mapsto> [100, 101, 102, 103]]"]
  by simp

text \<open>
  Claim C1. For a user outside the authorized set, the frequency query reports a
  violation exactly when the user's sequence has more than 3 entries and its last
  entry is at most 20 seconds after the entry 3 positions before it. In particular,
  after four logins are recorded for a user with no history, whose timestamps convert
  to \<open>t0\<close>, \<open>t1\<close>, \<open>t2\<close> and \<open>t3\<close>, the query reports a violation exactly when
  \<open>t3 - t0 \<le> 20\<close>. (The order \<open>t0 < t1 < t2 < t3\<close> of the claim is not needed.)
\<close>

theorem frequency_rule:
  assumes "auth u = None"
  shows "snd (frequencyHacking lt auth u) =
           (let seq = (case lt u of None \<Rightarrow> [] | Some v \<Rightarrow> v)
            in 3 < length seq \<and> seq ! (length seq - 1) - seq ! (length seq - 4) \<le> 20) \<and>
         (lt u = None \<longrightarrow>
            snd (frequencyHacking
                  (loginTime z m3 d3 c3 u (loginTime z m2 d2 c2 u
                    (loginTime z m1 d1 c1 u (loginTime z m0 d0 c0 u lt)))) auth u) =
            (toSeconds z (m3 @ '' '' @ d3 @ '' '' @ c3) 2021 -
             toSeconds z (m0 @ '' '' @ d0 @ '' '' @ c0) 2021 \<le> 20))"
proof
  show "snd (frequencyHacking lt auth u) =
           (let seq = (case lt u of None \<Rightarrow> [] | Some v \<Rightarrow> v)
            in 3 < length seq \<and> seq ! (length seq - 1) - seq ! (length seq - 4) \<le> 20)"
    using assms by (auto simp: frequencyHacking_def subscript_def Let_def split: option.splits)
next
  let ?lt4 = "loginTime z m3 d3 c3 u (loginTime z m2 d2 c2 u
                (loginTime z m1 d1 c1 u (loginTime z m0 d0 c0 u lt)))"
  show "lt u = None \<longrightarrow> snd (frequencyHacking ?lt4 auth u) =
            (toSeconds z (m3 @ '' '' @ d3 @ '' '' @ c3) 2021 -
             toSeconds z (m0 @ '' '' @ d0 @ '' '' @ c0) 2021 \<le> 20)"
  proof
    assume "lt u = None"
    then have "?lt4 u = Some [toSeconds z (m0 @ '' '' @ d0 @ '' '' @ c0) 2021,
        toSeconds z (m1 @ '' '' @ d1 @ '' '' @ c1) 2021,
        toSeconds z (m2 @ '' '' @ d2 @ '' '' @ c2) 2021,
        toSeconds z (m3 @ '' '' @ d3 @ '' '' @ c3) 2021]"
      by (simp add: loginTime_same)
    then show "snd (frequencyHacking ?lt4 auth u) =
            (toSeconds z (m3 @ '' '' @ d3 @ '' '' @ c3) 2021 -
             toSeconds z (m0 @ '' '' @ d0 @ '' '' @ c0) 2021 \<le> 20)"
      using assms by (simp add: frequencyHacking_def subscript_def)
  qed
qed

text \<open>
  Logins at 10:00:00, 10:00:05, 10:00:10 and 10:00:18 are reported (18 seconds);
  with the fourth at 10:00:21 they are not (21 seconds).
\<close>

theorem frequency_rule_witness:
  "(Map.empty :: LookupMap) ''bob'' = None \<and>
   snd (frequencyHacking
          (loginTime 0 ''Jun'' ''10'' ''10:00:18'' ''bob''
            (loginTime 0 ''Jun'' ''10'' ''10:00:10'' ''bob''
              (loginTime 0 ''Jun'' ''10'' ''10:00:05'' ''bob''
                (loginTime 0 ''Jun'' ''10'' ''10:00:00'' ''bob'' Map.empty))))
          Map.empty ''bob'') \<and>
   \<not> snd (frequencyHacking
          (loginTime 0 ''Jun'' ''10'' ''10:00:21'' ''bob''
            (loginTime 0 ''Jun'' ''10'' ''10:00:10'' ''bob''
              (loginTime 0 ''Jun'' ''10'' ''10:00:05'' ''bob''
                (loginTime 0 ''Jun'' ''10'' ''10:00:00'' ''bob'' Map.empty))))
          Map.empty ''bob'')"
  using
    frequency_rule [of Map.empty "''bob''" Map.empty 0 "''Jun''" "''10''" "''10:00:18''"
      "''Jun''" "''10''" "''10:00:10''" "''Jun''" "''10''" "''10:00:05''"
      "''Jun''" "''10''" "''10:00:00''"]
    frequency_rule [of Map.empty "''bob''" Map.empty 0 "''Jun''" "''10''" "''10:00:21''"
      "''Jun''" "''10''" "''10:00:10''" "''Jun''" "''10''" "''10:00:05''"
      "''Jun''" "''10''" "''10:00:00''"]
  by (simp add: timestamp_defs)

subsection \<open>One line of the log\<close>

text \<open>
  The loop body in terms of the fields of the line: what it does to the counters, the
  login history and the output.
\<close>

lemma frequencyHacking_after_loginTime:
  "frequencyHacking (loginTime z m d c u lt) a u =
     (loginTime z m d c u lt,
      a u = None \<and>
      (let seq = (case lt u of None \<Rightarrow> [] | Some v \<Rightarrow> v) @ [toSeconds z (m @ '' '' @ d @ '' '' @ c) 2021]
       in 3 < length seq \<and> seq ! (length seq - 1) - seq ! (length seq - 4) \<le> 20))"
  by (auto simp: frequencyHacking_def subscript_def loginTime_same Let_def)

lemma loop_body_tokens:
  "loop_body z b a line v =
     (let ts = tokens line;
          f = read_fields line v;
          banned = (b (field ts 10 (ip v)) \<noteq> None);
          lt = loginTime z (field ts 0 (month v)) (field ts 1 (day v)) (field ts 2 (time v))
                 (field ts 8 (userID v)) (loginTimes v);
          seq = (case loginTimes v (field ts 8 (userID v)) of None \<Rightarrow> [] | Some w \<Rightarrow> w) @
                [toSeconds z (field ts 0 (month v) @ '' '' @ field ts 1 (day v) @ '' '' @
                              field ts 2 (time v)) 2021];
          freq = (\<not> banned \<and> a (field ts 8 (userID v)) = None \<and> 3 < length seq \<and>
                  seq ! (length seq - 1) - seq ! (length seq - 4) \<le> 20)
      in f\<lparr>lineCount := lineCount v + 1,
           hackCount := hackCount v + (if banned \<or> freq then 1 else 0),
           loginTimes := (if banned then loginTimes v else lt),
           cout := cout v @ (if banned then [BannedIP line] else if freq then [Frequency line] else [])\<rparr>)"
  by (simp add: loop_body_def Let_def read_fields_tokens frequencyHacking_after_loginTime)

lemma loop_body_cases:
  "cout (loop_body z b a line v) = cout v \<and>
     hackCount (loop_body z b a line v) = hackCount v \<or>
   cout (loop_body z b a line v) = cout v @ [BannedIP line] \<and>
     hackCount (loop_body z b a line v) = hackCount v + 1 \<or>
   cout (loop_body z b a line v) = cout v @ [Frequency line] \<and>
     hackCount (loop_body z b a line v) = hackCount v + 1"
  by (auto simp: loop_body_tokens Let_def read_fields_tokens)

lemma loop_body_lineCount:
  "lineCount (loop_body z b a line v) = lineCount v + 1"
  by (simp add: loop_body_tokens Let_def read_fields_tokens)

text \<open>
  Claim C2. A line whose extracted IP is in the banned set prints the banned-IP flag,
  adds one to the hack count and leaves the login history as it was: its timestamp is
  not recorded. Whatever the line, it prints nothing, the banned-IP flag alone or the
  frequency flag alone, so no line is flagged by both rules.
\<close>

theorem banned_line:
  "(bannedIPs (ip (read_fields line v)) \<noteq> None \<longrightarrow>
      cout (loop_body z bannedIPs auth line v) = cout v @ [BannedIP line] \<and>
      hackCount (loop_body z bannedIPs auth line v) = hackCount v + 1 \<and>
      loginTimes (loop_body z bannedIPs auth line v) = loginTimes v) \<and>
   (cout (loop_body z bannedIPs auth line v) = cout v \<or>
    cout (loop_body z bannedIPs auth line v) = cout v @ [BannedIP line] \<or>
    cout (loop_body z bannedIPs auth line v) = cout v @ [Frequency line])"
proof
  show "bannedIPs (ip (read_fields line v)) \<noteq> None \<longrightarrow>
      cout (loop_body z bannedIPs auth line v) = cout v @ [BannedIP line] \<and>
      hackCount (loop_body z bannedIPs auth line v) = hackCount v + 1 \<and>
      loginTimes (loop_body z bannedIPs auth line v) = loginTimes v"
    by (simp add: loop_body_tokens Let_def read_fields_tokens)
  show "cout (loop_body z bannedIPs auth line v) = cout v \<or>
    cout (loop_body z bannedIPs auth line v) = cout v @ [BannedIP line] \<or>
    cout (loop_body z bannedIPs auth line v) = cout v @ [Frequency line]"
    using loop_body_cases [of z bannedIPs auth line v] by auto
qed

lemma tokens_banned_sample:
  "tokens (login_line ''10:00:00'' ''bob'' ''10.0.0.5'') =
     [''Jun'', ''10'', ''10:00:00'', ''srv'', ''sshd:'', ''Failed'', ''password'', ''for'', ''bob'',
      ''from'', ''10.0.0.5'']"
  by (simp add: login_line_def tokens.simps isspace_def)

text \<open>A login from the banned address \<open>10.0.0.5\<close>, on the first line of a run.\<close>

theorem banned_line_witness:
  "[''10.0.0.5'' \<mapsto> True] (ip (read_fields (login_line ''10:00:00'' ''bob'' ''10.0.0.5'') initial_vars))
     \<noteq> None \<and>
   cout (loop_body 0 [''10.0.0.5'' \<mapsto> True] Map.empty
           (login_line ''10:00:00'' ''bob'' ''10.0.0.5'') initial_vars) =
     [BannedIP (login_line ''10:00:00'' ''bob'' ''10.0.0.5'')] \<and>
   hackCount (loop_body 0 [''10.0.0.5'' \<mapsto> True] Map.empty
           (login_line ''10:00:00'' ''bob'' ''10.0.0.5'') initial_vars) = 1 \<and>
   loginTimes (loop_body 0 [''10.0.0.5'' \<mapsto> True] Map.empty
           (login_line ''10:00:00'' ''bob'' ''10.0.0.5'') initial_vars) = Map.empty"
proof -
  have banned: "[''10.0.0.5'' \<mapsto> True]
      (ip (read_fields (login_line ''10:00:00'' ''bob'' ''10.0.0.5'') initial_vars)) \<noteq> None"
    by (simp add: read_fields_tokens tokens_banned_sample field_def)
  show ?thesis
    using banned banned_line [of "[''10.0.0.5'' \<mapsto> True]"
        "login_line ''10:00:00'' ''bob'' ''10.0.0.5''" initial_vars 0 Map.empty]
    by (simp add: initial_vars_def)
qed

subsection \<open>The whole log\<close>

lemma while_getline_counts:
  "lineCount (while_getline z b a lines v) = lineCount v + int (length lines) \<and>
   hackCount (while_getline z b a lines v) - flags (cout (while_getline z b a lines v)) =
     hackCount v - flags (cout v) \<and>
   length (cout (while_getline z b a lines v)) \<le> length (cout v) + length lines \<and>
   (list_all (\<lambda>m. bannedIP_flag m \<or> frequency_flag m) (cout v) \<longrightarrow>
    list_all (\<lambda>m. bannedIP_flag m \<or> frequency_flag m) (cout (while_getline z b a lines v)))"
proof (induction lines arbitrary: v)
  case Nil
  show ?case by simp
next
  case (Cons line lines)
  have step: "hackCount (loop_body z b a line v) - flags (cout (loop_body z b a line v)) =
      hackCount v - flags (cout v) \<and>
    length (cout (loop_body z b a line v)) \<le> length (cout v) + 1 \<and>
    (list_all (\<lambda>m. bannedIP_flag m \<or> frequency_flag m) (cout v) \<longrightarrow>
     list_all (\<lambda>m. bannedIP_flag m \<or> frequency_flag m) (cout (loop_body z b a line v)))"
    using loop_body_cases [of z b a line v] by (auto simp: flags_def)
  show ?case
    using Cons.IH [of "loop_body z b a line v"] step loop_body_lineCount [of z b a line v]
    by simp
qed

text \<open>
  Claim C4. For every finite list of input lines, the summary is printed last; its
  line count is the number of lines, and its hack count is the number of banned-IP
  flags plus the number of frequency flags printed before it. Nothing but flags is
  printed before it, at most one for each line.
\<close>

theorem run_summary:
  "last (processLogs z lines b a) =
     Summary (int (length lines))
       (int (length (filter bannedIP_flag (butlast (processLogs z lines b a)))) +
        int (length (filter frequency_flag (butlast (processLogs z lines b a))))) \<and>
   list_all (\<lambda>m. bannedIP_flag m \<or> frequency_flag m) (butlast (processLogs z lines b a)) \<and>
   length (butlast (processLogs z lines b a)) \<le> length lines"
proof -
  let ?v = "while_getline z b a lines initial_vars"
  have "lineCount ?v = int (length lines)" "hackCount ?v = flags (cout ?v)"
    "length (cout ?v) \<le> length lines" "list_all (\<lambda>m. bannedIP_flag m \<or> frequency_flag m) (cout ?v)"
    using while_getline_counts [of z b a lines initial_vars]
    by (simp_all add: initial_vars_def flags_def)
  then show ?thesis
    by (simp add: processLogs_def flags_def Let_def)
qed

lemma tokens_sample_run:
  "tokens (login_line ''10:00:00'' ''bob'' ''10.0.0.7'') =
     [''Jun'', ''10'', ''10:00:00'', ''srv'', ''sshd:'', ''Failed'', ''password'', ''for'', ''bob'',
      ''from'', ''10.0.0.7'']"
  "tokens (login_line ''10:00:05'' ''bob'' ''10.0.0.7'') =
     [''Jun'', ''10'', ''10:00:05'', ''srv'', ''sshd:'', ''Failed'', ''password'', ''for'', ''bob'',
      ''from'', ''10.0.0.7'']"
  "tokens (login_line ''10:00:10'' ''bob'' ''10.0.0.7'') =
     [''Jun'', ''10'', ''10:00:10'', ''srv'', ''sshd:'', ''Failed'', ''password'', ''for'', ''bob'',
      ''from'', ''10.0.0.7'']"
  "tokens (login_line ''10:00:18'' ''bob'' ''10.0.0.7'') =
     [''Jun'', ''10'', ''10:00:18'', ''srv'', ''sshd:'', ''Failed'', ''password'', ''for'', ''bob'',
      ''from'', ''10.0.0.7'']"
  by (simp_all add: login_line_def tokens.simps isspace_def)

lemma toSeconds_samples:
  "toSeconds 0 ''Jun 10 10:00:00'' 2021 = 1623319200"
  "toSeconds 0 ''Jun 10 10:00:05'' 2021 = 1623319205"
  "toSeconds 0 ''Jun 10 10:00:10'' 2021 = 1623319210"
  "toSeconds 0 ''Jun 10 10:00:18'' 2021 = 1623319218"
  by (simp_all add: timestamp_defs)

lemmas run_defs = processLogs_def loop_body_tokens read_fields_tokens field_def initial_vars_def
  loginTime_def Let_def

lemma sample_run:
  "processLogs 0
     [login_line ''10:00:00'' ''bob'' ''10.0.0.7'', login_line ''10:00:05'' ''bob'' ''10.0.0.7'',
      login_line ''10:00:10'' ''bob'' ''10.0.0.7'', login_line ''10:00:18'' ''bob'' ''10.0.0.7'']
     [''10.0.0.5'' \<mapsto> True] Map.empty =
   [Frequency (login_line ''10:00:18'' ''bob'' ''10.0.0.7''), Summary 4 1]"
  by (simp add: run_defs tokens_sample_run toSeconds_samples)

text \<open>
  Four logins of \<open>bob\<close> within 18 seconds from an address that is not banned: the
  fourth line is flagged, the summary counts 4 lines and 1 attempt.
\<close>

theorem run_summary_witness:
  "last (processLogs 0
     [login_line ''10:00:00'' ''bob'' ''10.0.0.7'', login_line ''10:00:05'' ''bob'' ''10.0.0.7'',
      login_line ''10:00:10'' ''bob'' ''10.0.0.7'', login_line ''10:00:18'' ''bob'' ''10.0.0.7'']
     [''10.0.0.5'' \<mapsto> True] Map.empty) = Summary 4 1 \<and>
   butlast (processLogs 0
     [login_line ''10:00:00'' ''bob'' ''10.0.0.7'', login_line ''10:00:05'' ''bob'' ''10.0.0.7'',
      login_line ''10:00:10'' ''bob'' ''10.0.0.7'', login_line ''10:00:18'' ''bob'' ''10.0.0.7'']
     [''10.0.0.5'' \<mapsto> True] Map.empty) = [Frequency (login_line ''10:00:18'' ''bob'' ''10.0.0.7'')]"
  using run_summary [of 0
     "[login_line ''10:00:00'' ''bob'' ''10.0.0.7'', login_line ''10:00:05'' ''bob'' ''10.0.0.7'',
      login_line ''10:00:10'' ''bob'' ''10.0.0.7'', login_line ''10:00:18'' ''bob'' ''10.0.0.7'']"
     "[''10.0.0.5'' \<mapsto> True]" Map.empty]
  by (simp add: sample_run)

subsection \<open>Lines with missing fields\<close>



text \<open>
  A lookup set that \<open>loadLookup\<close> has read holds no empty word: every word read is
  a run of at least one character.
\<close>

lemma read_string_word:
  assumes "read_string strm var = (strm', var')" and "\<not> failbit strm'"
  shows "var' \<noteq> []"
proof -
  let ?s = "dropWhile isspace (rest strm)"
  have ok: "\<not> eofbit strm" "\<not> failbit strm" "?s \<noteq> []"
    using assms read_string_fail [of strm var] by auto
  then have "var' = takeWhile (\<lambda>c. \<not> isspace c) ?s"
    using assms(1) read_string_token [of strm var] by auto
  moreover have "\<not> isspace (hd ?s)" using ok(3) by (rule hd_dropWhile_isspace)
  ultimately show ?thesis using ok(3) by (cases ?s) auto
qed

lemma load_entries_no_empty_word:
  "lookup [] = None \<Longrightarrow> load_entries strm entry lookup [] = None"
proof (induction strm entry lookup rule: load_entries.induct)
  case (1 strm entry lookup)
  obtain strm' entry' where r: "read_string strm entry = (strm', entry')"
    by (cases "read_string strm entry")
  show ?case
  proof (cases "failbit strm'")
    case True
    then show ?thesis using r "1.prems" by (subst load_entries.simps) simp
  next
    case False
    then have "entry' \<noteq> []" using r by (intro read_string_word)
    then have "(lookup(entry' \<mapsto> True)) [] = None" using "1.prems" by simp
    then have "load_entries strm' entry' (lookup(entry' \<mapsto> True)) [] = None"
      by (rule "1.IH" [OF r [symmetric] False])
    then show ?thesis using r False by (subst load_entries.simps) simp
  qed
qed

lemma loadLookup_no_empty_word: "loadLookup w fileName = Inr lookup \<Longrightarrow> lookup [] = None"
  by (auto simp: loadLookup_def load_entries_no_empty_word split: option.splits)




text \<open>
  Once a line has filled the variables, a later line with missing fields is judged on
  the values that line left behind: an empty line after a login from a banned address
  is flagged as coming from that address.
\<close>

lemma stale_fields_example:
  "processLogs 0 [login_line ''10:00:00'' ''bob'' ''10.0.0.5'', []] [''10.0.0.5'' \<mapsto> True] Map.empty =
     [BannedIP (login_line ''10:00:00'' ''bob'' ''10.0.0.5''), BannedIP [], Summary 2 2]"
  by (auto simp: run_defs tokens_banned_sample tokens_Nil)

subsection \<open>Resolving a URL\<close>

lemma search_char:
  "search [c] s = (if c \<in> set s then Some (length (takeWhile (\<lambda>x. x \<noteq> c) s)) else None)"
  by (induction s) auto

lemma takeWhile_shorter:
  "c \<in> set s \<Longrightarrow> length (takeWhile (\<lambda>x. x \<noteq> c) s) < length s"
  by (induction s) auto

lemma find_chr_eq:
  "find_chr s c = (if c \<in> set s then length (takeWhile (\<lambda>x. x \<noteq> c) s) else npos)"
  by (simp add: find_chr_def find_str_def search_char)

lemma search_None:
  "search pat s = None \<longleftrightarrow> \<not> (\<exists>pre post. s = pre @ pat @ post)"
proof (induction s)
  case Nil
  show ?case by auto
next
  case (Cons c s)
  show ?case
  proof (cases "take (length pat) (c # s) = pat")
    case True
    then have "c # s = [] @ pat @ drop (length pat) (c # s)"
      by (metis append_Nil append_take_drop_id)
    then have "\<exists>pre post. c # s = pre @ pat @ post" by blast
    with True show ?thesis by simp
  next
    case False
    have "(\<exists>pre post. c # s = pre @ pat @ post) \<longleftrightarrow> (\<exists>pre post. s = pre @ pat @ post)"
    proof
      assume "\<exists>pre post. c # s = pre @ pat @ post"
      then obtain pre post where eq: "c # s = pre @ pat @ post" by blast
      show "\<exists>pre post. s = pre @ pat @ post"
      proof (cases pre)
        case Nil
        with eq have "take (length pat) (c # s) = pat" by simp
        with False show ?thesis by simp
      next
        case (Cons x pre')
        with eq have "s = pre' @ pat @ post" by simp
        then show ?thesis by blast
      qed
    next
      assume "\<exists>pre post. s = pre @ pat @ post"
      then obtain pre post where "s = pre @ pat @ post" by blast
      then have "c # s = (c # pre) @ pat @ post" by simp
      then show "\<exists>pre post. c # s = pre @ pat @ post" by blast
    qed
    with False Cons.IH show ?thesis by simp
  qed
qed

lemma search_Some:
  "search pat s = Some i \<Longrightarrow> i + length pat \<le> length s \<and> take (length pat) (drop i s) = pat"
proof (induction s arbitrary: i)
  case Nil
  then show ?case by (simp split: if_splits)
next
  case (Cons c s)
  show ?case
  proof (cases "take (length pat) (c # s) = pat")
    case True
    with Cons.prems have "i = 0" by simp
    moreover have "min (length (c # s)) (length pat) = length pat"
      using arg_cong [OF True, of length] by (simp only: length_take)
    then have "length pat \<le> length (c # s)" by linarith
    ultimately show ?thesis using True by simp
  next
    case False
    with Cons.prems obtain j where "search pat s = Some j" "i = Suc j" by auto
    with Cons.IH [of j] show ?thesis by simp
  qed
qed

lemma substr_npos:
  "length s \<le> npos \<Longrightarrow>
   substr s pos npos = (if length s < pos then Inl OutOfRange else Inr (drop pos s))"
  by (simp add: substr_def)

lemma take_find_chr:
  assumes "length p \<le> npos"
  shows "take (find_chr p c) p = takeWhile (\<lambda>x. x \<noteq> c) p"
proof (cases "c \<in> set p")
  case True
  then show ?thesis by (simp add: find_chr_eq takeWhile_eq_take [symmetric])
next
  case False
  then have tw: "takeWhile (\<lambda>x. x \<noteq> c) p = p" by auto
  have "take npos p = p" using assms by simp
  then show ?thesis using False by (simp only: find_chr_eq if_False tw)
qed

text \<open>What breakDownURL makes of the host part.\<close>

lemma breakDownURL_hostName:
  assumes h: "substr url (size_add (find_str url ''//'') 2) npos = Inr h"
    and len: "length h < npos"
  shows "breakDownURL url =
     (if CHR ''/'' \<notin> set h then Inl OutOfRange
      else Inr (if CHR '':'' \<in> set h then takeWhile (\<lambda>c. c \<noteq> CHR '':'') h
                else takeWhile (\<lambda>c. c \<noteq> CHR ''/'') h,
                if CHR '':'' \<in> set h
                then takeWhile (\<lambda>c. c \<noteq> CHR ''/'') (tl (dropWhile (\<lambda>c. c \<noteq> CHR '':'') h))
                else ''80'',
                dropWhile (\<lambda>c. c \<noteq> CHR ''/'') h))"
proof -
  let ?colon = "length (takeWhile (\<lambda>c. c \<noteq> CHR '':'') h)"
  let ?slash = "length (takeWhile (\<lambda>c. c \<noteq> CHR ''/'') h)"
  let ?port = "tl (dropWhile (\<lambda>c. c \<noteq> CHR '':'') h)"
  have path: "substr h (find_chr h CHR ''/'') npos =
      (if CHR ''/'' \<in> set h then Inr (dropWhile (\<lambda>c. c \<noteq> CHR ''/'') h) else Inl OutOfRange)"
    using len takeWhile_shorter [of "CHR ''/''" h]
    by (auto simp: find_chr_eq substr_def dropWhile_eq_drop)
  show ?thesis
  proof (cases "CHR '':'' \<in> set h")
    case False
    then have "find_chr h CHR '':'' = npos" by (simp add: find_chr_eq)
    moreover have "CHR ''/'' \<in> set h \<Longrightarrow>
        substr h 0 (find_chr h CHR ''/'') = Inr (takeWhile (\<lambda>c. c \<noteq> CHR ''/'') h)"
      by (simp add: find_chr_eq substr_def takeWhile_eq_take [symmetric])
    ultimately show ?thesis
      using False h path by (simp add: breakDownURL_def)
  next
    case True
    have c1: "?colon < length h" using True by (rule takeWhile_shorter)
    then have ne: "find_chr h CHR '':'' \<noteq> npos" "find_chr h CHR '':'' = ?colon"
      using True len by (simp_all add: find_chr_eq)
    have add: "size_add ?colon (Suc 0) = Suc ?colon"
      using c1 len by (simp add: size_add_def npos_def)
    have "drop (Suc ?colon) h = ?port"
      by (simp add: dropWhile_eq_drop drop_Suc tl_drop)
    moreover have plen: "length ?port \<le> npos"
      using len length_dropWhile_le [of "\<lambda>c. c \<noteq> CHR '':''" h] by simp
    ultimately have p1: "substr h (size_add ?colon 1) npos = Inr ?port"
      using c1 len by (simp add: add substr_def)
    have "take (find_chr ?port CHR ''/'') ?port = takeWhile (\<lambda>c. c \<noteq> CHR ''/'') ?port"
      using plen by (rule take_find_chr)
    then have p2: "substr ?port 0 (find_chr ?port CHR ''/'') =
        Inr (takeWhile (\<lambda>c. c \<noteq> CHR ''/'') ?port)"
      by (simp add: substr_def)
    have p3: "substr h 0 ?colon = Inr (takeWhile (\<lambda>c. c \<noteq> CHR '':'') h)"
      by (simp add: substr_def takeWhile_eq_take [symmetric])
    show ?thesis
      using True h path ne p1 p2 p3 by (simp add: breakDownURL_def Let_def)
  qed
qed

lemma hostName_with_separator:
  assumes "search ''//'' url = Some i" and "length url < npos"
  shows "substr url (size_add (find_str url ''//'') 2) npos = Inr (drop (i + 2) url)"
proof -
  have "i + 2 \<le> length url" using search_Some [OF assms(1)] by simp
  then have "size_add i 2 = i + 2" using assms(2) by (simp add: size_add_def npos_def)
  then show ?thesis
    using assms \<open>i + 2 \<le> length url\<close> by (simp add: find_str_def substr_def)
qed

lemma hostName_without_separator:
  assumes "search ''//'' url = None" and "length url < npos"
  shows "substr url (size_add (find_str url ''//'') 2) npos =
           (if url = [] then Inl OutOfRange else Inr (tl url))"
proof -
  have "size_add npos 2 = 1" by (simp add: size_add_def npos_def)
  then show ?thesis
    using assms by (cases url) (simp_all add: find_str_def substr_def)
qed

lemma breakDownURL_no_hostName:
  "substr url (size_add (find_str url ''//'') 2) npos = Inl e \<Longrightarrow> breakDownURL url = Inl e"
  by (simp add: breakDownURL_def)

lemma sample_searches:
  "search ''//'' ''http://host.example.com'' = Some 5"
  "search ''//'' ''http://host.example.com:8080/logs/a.txt'' = Some 5"
  "search ''//'' ''http://host.example.com/a.txt'' = Some 5"
  "search ''//'' ''example.com/logs'' = None"
  by simp_all

text \<open>
  Claim C7, on three URLs. A URL with a path is resolved as the claim says, with
  the port of the URL or \<open>"80"\<close>. A URL with no \<open>/\<close> after its host does not get
  the default path \<open>"/"\<close>: \<open>hostName.substr(hostName.find('/'))\<close> is evaluated
  with \<open>npos\<close> and throws \<open>std::out_of_range\<close>.
\<close>

theorem breakDownURL_examples:
  "breakDownURL ''http://host.example.com'' = Inl OutOfRange \<and>
   breakDownURL ''http://host.example.com:8080/logs/a.txt'' =
     Inr (''host.example.com'', ''8080'', ''/logs/a.txt'') \<and>
   breakDownURL ''http://host.example.com/a.txt'' = Inr (''host.example.com'', ''80'', ''/a.txt'')"
proof -
  have small: "length ''http://host.example.com'' < npos"
    "length ''http://host.example.com:8080/logs/a.txt'' < npos"
    "length ''http://host.example.com/a.txt'' < npos"
    by (simp_all add: npos_def)
  have "breakDownURL ''http://host.example.com'' = Inl OutOfRange"
    using breakDownURL_hostName [OF hostName_with_separator [OF sample_searches(1) small(1)]]
    by (simp add: npos_def)
  moreover have "breakDownURL ''http://host.example.com:8080/logs/a.txt'' =
     Inr (''host.example.com'', ''8080'', ''/logs/a.txt'')"
    using breakDownURL_hostName [OF hostName_with_separator [OF sample_searches(2) small(2)]]
    by (simp add: npos_def)
  moreover have "breakDownURL ''http://host.example.com/a.txt'' =
     Inr (''host.example.com'', ''80'', ''/a.txt'')"
    using breakDownURL_hostName [OF hostName_with_separator [OF sample_searches(3) small(3)]]
    by (simp add: npos_def)
  ultimately show ?thesis by simp
qed

text \<open>
  The colon is looked for in the whole host part, the path included: a colon after
  the first \<open>/\<close> is taken for the port separator, and the host then holds the start
  of the path.
\<close>

lemma colon_in_path_example:
  "breakDownURL ''http://host/a:b'' = Inr (''host/a'', ''b'', ''/a:b'')"
proof -
  have s: "search ''//'' ''http://host/a:b'' = Some 5" by simp
  have small: "length ''http://host/a:b'' < npos" by (simp add: npos_def)
  show ?thesis
    using breakDownURL_hostName [OF hostName_with_separator [OF s small]]
    by (simp add: npos_def)
qed

subsection \<open>The program on a URL\<close>

lemma main_resolved:
  "breakDownURL url = Inr (host, port, path) \<Longrightarrow>
   connections (main w [prog, url]) = [(host, ''80'')]"
  by (simp add: main_def setupDownload_def Let_def split: sum.splits)

lemma main_unresolved:
  "breakDownURL url = Inl e \<Longrightarrow>
   main w [prog, url] = \<lparr>status = Terminated e, connections = [], printed = []\<rparr>"
  by (simp add: main_def)

lemma sample_lookups:
  "loadLookup sample_world ''banned_ips.txt'' = Inr [''10.0.0.5'' \<mapsto> True]"
  "loadLookup sample_world ''authorized_users.txt'' = Inr [''alice'' \<mapsto> True]"
  by (simp_all add: loadLookup_def sample_world_def istringstream_def load_entries.simps
      read_string_def isspace_def Let_def)

lemma sample_main:
  assumes "breakDownURL url = Inr (host, port, path)"
  shows "main sample_world [prog, url] =
     \<lparr>status = Returned 0, connections = [(host, ''80'')],
      printed = [BannedIP (login_line ''10:00:00'' ''bob'' ''10.0.0.5''), Summary 1 1]\<rparr>"
proof -
  have "processLogs 0 [login_line ''10:00:00'' ''bob'' ''10.0.0.5''] [''10.0.0.5'' \<mapsto> True]
      [''alice'' \<mapsto> True] = [BannedIP (login_line ''10:00:00'' ''bob'' ''10.0.0.5''), Summary 1 1]"
    by (auto simp: run_defs tokens_banned_sample)
  moreover have "skip_headers (server sample_world host ''80''
      (sent (setupDownload sample_world host path ''80''))) =
      [login_line ''10:00:00'' ''bob'' ''10.0.0.5'']"
    by (simp add: sample_world_def)
  moreover have "gmtoff sample_world = 0" by (simp add: sample_world_def)
  ultimately show ?thesis
    using assms by (simp add: main_def setupDownload_def Let_def sample_lookups)
qed

lemma main_connections:
  "connections (main w argv) =
     (if length argv < 2 then []
      else case breakDownURL (argv ! 1) of
             Inl e \<Rightarrow> []
           | Inr (host, port, path) \<Rightarrow> [(host, ''80'')])"
proof (cases "length argv < 2")
  case True
  then show ?thesis by (simp add: main_def)
next
  case False
  show ?thesis
  proof (cases "breakDownURL (argv ! 1)")
    case (Inl e)
    with False show ?thesis by (simp add: main_def)
  next
    case (Inr r)
    obtain host port path where "r = (host, port, path)" by (cases r) auto
    with Inr False show ?thesis
      by (simp add: main_def setupDownload_def Let_def split: sum.splits)
  qed
qed

lemma main_ignores_port:
  assumes "breakDownURL url = Inr (host, port, path)"
    and "breakDownURL url' = Inr (host, port', path)"
  shows "main w [prog, url] = main w [prog, url']"
  using assms by (simp add: main_def)

text \<open>
  Claim C8 does not hold as stated. For a URL without \<open>//\<close>, \<open>url.find("//")\<close> is
  \<open>npos\<close> and \<open>npos + 2\<close> wraps to \<open>1\<close>: \<open>example.com/logs\<close> is resolved from its
  second character on, the program connects to \<open>xample.com\<close> and ends normally.
\<close>

theorem url_without_separator_fetched:
  "search ''//'' ''example.com/logs'' = None \<and>
   breakDownURL ''example.com/logs'' = Inr (''xample.com'', ''80'', ''/logs'') \<and>
   main sample_world [''detect'', ''example.com/logs''] =
     \<lparr>status = Returned 0, connections = [(''xample.com'', ''80'')],
      printed = [BannedIP (login_line ''10:00:00'' ''bob'' ''10.0.0.5''), Summary 1 1]\<rparr>"
proof -
  have small: "length ''example.com/logs'' < npos" by (simp add: npos_def)
  have r: "breakDownURL ''example.com/logs'' = Inr (''xample.com'', ''80'', ''/logs'')"
    using breakDownURL_hostName [of "''example.com/logs''" "''xample.com/logs''"]
      hostName_without_separator [OF sample_searches(4) small]
    by (simp add: npos_def)
  show ?thesis
    using r sample_main [OF r, of "''detect''"] sample_searches(4) by simp
qed

text \<open>
  Claim C8, amended. The program does not look for the scheme separator. A URL
  without \<open>//\<close> is fatal only when it is empty or has no \<open>/\<close> after its first
  character: then \<open>substr\<close> throws \<open>std::out_of_range\<close>, which nothing catches, and
  the program ends before any connection. Every other such URL is resolved from its
  second character on, as host, optional port and path, and the program goes on to
  connect to that host.
\<close>

theorem url_without_separator:
  assumes "\<not> (\<exists>pre post. url = pre @ ''//'' @ post)" and "length url < npos"
  shows "(url = [] \<or> CHR ''/'' \<notin> set (tl url) \<longrightarrow>
            main w [prog, url] =
              \<lparr>status = Terminated OutOfRange, connections = [], printed = []\<rparr>) \<and>
         (url \<noteq> [] \<and> CHR ''/'' \<in> set (tl url) \<longrightarrow>
            breakDownURL url =
              Inr (if CHR '':'' \<in> set (tl url) then takeWhile (\<lambda>c. c \<noteq> CHR '':'') (tl url)
                   else takeWhile (\<lambda>c. c \<noteq> CHR ''/'') (tl url),
                   if CHR '':'' \<in> set (tl url)
                   then takeWhile (\<lambda>c. c \<noteq> CHR ''/'')
                          (tl (dropWhile (\<lambda>c. c \<noteq> CHR '':'') (tl url)))
                   else ''80'',
                   dropWhile (\<lambda>c. c \<noteq> CHR ''/'') (tl url)) \<and>
            connections (main w [prog, url]) =
              [(if CHR '':'' \<in> set (tl url) then takeWhile (\<lambda>c. c \<noteq> CHR '':'') (tl url)
                else takeWhile (\<lambda>c. c \<noteq> CHR ''/'') (tl url), ''80'')])"
proof -
  have none: "search ''//'' url = None"
    using assms(1) by (simp add: search_None)
  note host = hostName_without_separator [OF none assms(2)]
  show ?thesis
  proof (cases "url = []")
    case True
    then have "breakDownURL url = Inl OutOfRange"
      using host by (intro breakDownURL_no_hostName) simp
    then show ?thesis using True main_unresolved by simp
  next
    case False
    then have h: "substr url (size_add (find_str url ''//'') 2) npos = Inr (tl url)"
      using host by simp
    have "length (tl url) < npos" using assms(2) by simp
    note r = breakDownURL_hostName [OF h this]
    show ?thesis
    proof (cases "CHR ''/'' \<in> set (tl url)")
      case True
      with r False show ?thesis using main_resolved by simp
    next
      case no_slash: False
      with r have "breakDownURL url = Inl OutOfRange" by simp
      then show ?thesis using no_slash main_unresolved by simp
    qed
  qed
qed

text \<open>\<open>example.com/logs\<close> is fetched from \<open>xample.com\<close>; \<open>example.com\<close> is fatal.\<close>

theorem url_without_separator_witness:
  "\<not> (\<exists>pre post. ''example.com/logs'' = pre @ ''//'' @ post) \<and>
   length ''example.com/logs'' < npos \<and>
   connections (main sample_world [''detect'', ''example.com/logs'']) = [(''xample.com'', ''80'')] \<and>
   main sample_world [''detect'', ''example.com''] =
     \<lparr>status = Terminated OutOfRange, connections = [], printed = []\<rparr>"
proof -
  have a: "\<not> (\<exists>pre post. ''example.com/logs'' = pre @ ''//'' @ post)"
    using search_None [of "''//''" "''example.com/logs''"] by simp
  have b: "\<not> (\<exists>pre post. ''example.com'' = pre @ ''//'' @ post)"
    using search_None [of "''//''" "''example.com''"] by simp
  have c: "length ''example.com/logs'' < npos" "length ''example.com'' < npos"
    by (simp_all add: npos_def)
  show ?thesis
    using a c(1) url_without_separator [OF a c(1), of sample_world "''detect''"]
      url_without_separator [OF b c(2), of sample_world "''detect''"]
    by simp
qed

text \<open>
  Claim C10. Whenever the program connects, it connects to the host of the URL on
  port \<open>"80"\<close>, and it connects once, when the URL was resolved; the port that the
  resolver extracted is never used: two URLs that differ in their port only give the
  same run.
\<close>

theorem default_port:
  "connections (main w argv) =
     (if length argv < 2 then []
      else case breakDownURL (argv ! 1) of
             Inl e \<Rightarrow> []
           | Inr (host, port, path) \<Rightarrow> [(host, ''80'')]) \<and>
   (breakDownURL url = Inr (host, port, path) \<longrightarrow>
    breakDownURL url' = Inr (host, port', path) \<longrightarrow>
      main w [prog, url] = main w [prog, url'])"
proof (intro conjI impI)
  show "connections (main w argv) =
     (if length argv < 2 then []
      else case breakDownURL (argv ! 1) of
             Inl e \<Rightarrow> []
           | Inr (host, port, path) \<Rightarrow> [(host, ''80'')])"
    by (rule main_connections)
next
  assume "breakDownURL url = Inr (host, port, path)"
    and "breakDownURL url' = Inr (host, port', path)"
  then show "main w [prog, url] = main w [prog, url']"
    by (rule main_ignores_port)
qed

text \<open>A URL with port 8080 is fetched on port 80, like the same URL without a port.\<close>

theorem default_port_witness:
  "connections (main sample_world [''detect'', ''http://host.example.com:8080/logs/a.txt'']) =
     [(''host.example.com'', ''80'')] \<and>
   main sample_world [''detect'', ''http://host.example.com:8080/logs/a.txt''] =
   main sample_world [''detect'', ''http://host.example.com/logs/a.txt'']"
proof -
  have s: "search ''//'' ''http://host.example.com/logs/a.txt'' = Some 5" by simp
  have small: "length ''http://host.example.com:8080/logs/a.txt'' < npos"
    "length ''http://host.example.com/logs/a.txt'' < npos"
    by (simp_all add: npos_def)
  have r1: "breakDownURL ''http://host.example.com:8080/logs/a.txt'' =
      Inr (''host.example.com'', ''8080'', ''/logs/a.txt'')"
    using breakDownURL_hostName [OF hostName_with_separator [OF sample_searches(2) small(1)]]
    by (simp add: npos_def)
  have r2: "breakDownURL ''http://host.example.com/logs/a.txt'' =
      Inr (''host.example.com'', ''80'', ''/logs/a.txt'')"
    using breakDownURL_hostName [OF hostName_with_separator [OF s small(2)]]
    by (simp add: npos_def)
  have "connections (main sample_world
      [''detect'', ''http://host.example.com:8080/logs/a.txt'']) = [(''host.example.com'', ''80'')]"
    using default_port [of sample_world
        "[''detect'', ''http://host.example.com:8080/logs/a.txt'']"]
    by (simp add: r1)
  moreover have "main sample_world [''detect'', ''http://host.example.com:8080/logs/a.txt''] =
      main sample_world [''detect'', ''http://host.example.com/logs/a.txt'']"
    using default_port [of sample_world "[]" "''http://host.example.com:8080/logs/a.txt''"
        "''host.example.com''" "''8080''" "''/logs/a.txt''"
        "''http://host.example.com/logs/a.txt''" "''80''" "''detect''"] r1 r2
    by blast
  ultimately show ?thesis by simp
qed

subsection \<open>Timestamps as ordinals\<close>

lemma toSeconds_parse:
  "toSeconds z ts year = mktime z (fst (parse_timestamp ts year))"
  by (simp add: toSeconds_def parse_timestamp_def)

lemma strptime_year: "tm_year (fst (strptime rp fmt t)) = tm_year t"
  by (induction rp fmt t rule: strptime.induct) (auto split: list.splits option.splits)

lemma get_number_bounds:
  "get_number lo hi n rp = Some (v, r) \<Longrightarrow> lo \<le> v \<and> v \<le> hi"
  by (auto simp: get_number_def Let_def split: if_splits prod.splits)

lemma match_month_bounds:
  "match_month c names rp = Some (cnt, r) \<Longrightarrow> c \<le> cnt \<and> cnt < c + int (length names)"
  by (induction c names rp rule: match_month.induct) (auto split: option.splits)

lemma month_in_range:
  assumes "in_range t" and "match_month 0 (zip month_name ab_month_name) rp = Some (cnt, r)"
  shows "in_range (t\<lparr>tm_mon := cnt\<rparr>)"
proof -
  have "length (zip month_name ab_month_name) = 12"
    by (simp add: month_name_def ab_month_name_def)
  then have "0 \<le> cnt \<and> cnt \<le> 11"
    using match_month_bounds [OF assms(2)] by simp
  then show ?thesis using assms(1) by (simp add: in_range_def)
qed

lemma number_in_range:
  assumes "in_range t" and "get_number lo hi n rp = Some (v, r)"
  shows "lo = 1 \<Longrightarrow> hi = 31 \<Longrightarrow> in_range (t\<lparr>tm_mday := v\<rparr>)"
    and "lo = 0 \<Longrightarrow> hi = 23 \<Longrightarrow> in_range (t\<lparr>tm_hour := v\<rparr>)"
    and "lo = 0 \<Longrightarrow> hi = 59 \<Longrightarrow> in_range (t\<lparr>tm_min := v\<rparr>)"
    and "lo = 0 \<Longrightarrow> hi = 61 \<Longrightarrow> in_range (t\<lparr>tm_sec := v\<rparr>)"
  using assms(1) get_number_bounds [OF assms(2)] by (simp_all add: in_range_def)

lemma strptime_in_range: "in_range t \<Longrightarrow> in_range (fst (strptime rp fmt t))"
proof (induction fmt arbitrary: rp t)
  case Nil
  then show ?case by simp
next
  case (Cons d fmt)
  show ?case
  proof (cases d)
    case Blank
    then show ?thesis using Cons.IH [OF Cons.prems] by simp
  next
    case (Lit ch)
    then show ?thesis using Cons.IH [OF Cons.prems] Cons.prems by (cases rp) simp_all
  next
    case MonthName
    show ?thesis
    proof (cases "match_month 0 (zip month_name ab_month_name) rp")
      case None
      with MonthName Cons.prems show ?thesis by simp
    next
      case (Some a)
      obtain cnt r where a: "a = (cnt, r)" by (cases a)
      have "strptime rp (d # fmt) t = strptime r fmt (t\<lparr>tm_mon := cnt\<rparr>)"
        by (simp only: MonthName strptime.simps Some a option.case prod.case)
      then show ?thesis
        using Cons.IH [OF month_in_range [OF Cons.prems Some [unfolded a]]] by simp
    qed
  next
    case DayOfMonth
    show ?thesis
    proof (cases "get_number 1 31 2 rp")
      case None
      with DayOfMonth Cons.prems show ?thesis by simp
    next
      case (Some a)
      obtain v r where a: "a = (v, r)" by (cases a)
      have "strptime rp (d # fmt) t = strptime r fmt (t\<lparr>tm_mday := v\<rparr>)"
        by (simp only: DayOfMonth strptime.simps Some a option.case prod.case)
      then show ?thesis
        using Cons.IH [OF number_in_range(1) [OF Cons.prems Some [unfolded a]]] by simp
    qed
  next
    case Hour
    show ?thesis
    proof (cases "get_number 0 23 2 rp")
      case None
      with Hour Cons.prems show ?thesis by simp
    next
      case (Some a)
      obtain v r where a: "a = (v, r)" by (cases a)
      have "strptime rp (d # fmt) t = strptime r fmt (t\<lparr>tm_hour := v\<rparr>)"
        by (simp only: Hour strptime.simps Some a option.case prod.case)
      then show ?thesis
        using Cons.IH [OF number_in_range(2) [OF Cons.prems Some [unfolded a]]] by simp
    qed
  next
    case Minute
    show ?thesis
    proof (cases "get_number 0 59 2 rp")
      case None
      with Minute Cons.prems show ?thesis by simp
    next
      case (Some a)
      obtain v r where a: "a = (v, r)" by (cases a)
      have "strptime rp (d # fmt) t = strptime r fmt (t\<lparr>tm_min := v\<rparr>)"
        by (simp only: Minute strptime.simps Some a option.case prod.case)
      then show ?thesis
        using Cons.IH [OF number_in_range(3) [OF Cons.prems Some [unfolded a]]] by simp
    qed
  next
    case Second
    show ?thesis
    proof (cases "get_number 0 61 2 rp")
      case None
      with Second Cons.prems show ?thesis by simp
    next
      case (Some a)
      obtain v r where a: "a = (v, r)" by (cases a)
      have "strptime rp (d # fmt) t = strptime r fmt (t\<lparr>tm_sec := v\<rparr>)"
        by (simp only: Second strptime.simps Some a option.case prod.case)
      then show ?thesis
        using Cons.IH [OF number_in_range(4) [OF Cons.prems Some [unfolded a]]] by simp
    qed
  qed
qed

lemma mon_yday_sum:
  assumes "m < 12"
  shows "mon_yday (leapyear year) m = sum_list (take m (month_lengths year))"
proof -
  have "m = 0 \<or> m = 1 \<or> m = 2 \<or> m = 3 \<or> m = 4 \<or> m = 5 \<or> m = 6 \<or> m = 7 \<or> m = 8 \<or>
      m = 9 \<or> m = 10 \<or> m = 11"
    using assms by arith
  then show ?thesis
    by (elim disjE) (simp_all add: mon_yday_def month_lengths_def)
qed

lemma mktime_calendar:
  assumes "tm_year t = year - 1900" and "0 \<le> tm_mon t" and "tm_mon t \<le> 11"
  shows "mktime z t = year_start year + second_of_year year t - z"
proof -
  have "tm_mon t mod 12 = tm_mon t" "tm_mon t div 12 = 0"
    using assms(2,3) by simp_all
  moreover have "mon_yday (leapyear year) (nat (tm_mon t)) =
      sum_list (take (nat (tm_mon t)) (month_lengths year))"
    using assms(2,3) by (intro mon_yday_sum) simp
  ultimately show ?thesis
    using assms(1) by (simp add: mktime_def second_of_year_def year_start_def Let_def algebra_simps)
qed

lemma prefix_sum_mono:
  fixes xs :: "int list"
  assumes "i < j" and "j \<le> length xs" and "\<forall>x\<in>set xs. 0 \<le> x"
  shows "sum_list (take i xs) + xs ! i \<le> sum_list (take j xs)"
proof -
  have i: "i < length xs" using assms(1,2) by simp
  have "take j xs = take (Suc i) xs @ take (j - Suc i) (drop (Suc i) xs)"
    using assms(1) take_add [of "Suc i" "j - Suc i" xs] by simp
  moreover have "take (Suc i) xs = take i xs @ [xs ! i]"
    using i by (rule take_Suc_conv_app_nth)
  moreover have "0 \<le> sum_list (take (j - Suc i) (drop (Suc i) xs))"
    using assms(3) by (intro sum_list_nonneg) (auto dest: in_set_takeD in_set_dropD)
  ultimately show ?thesis by simp
qed

lemma month_lengths_facts:
  "length (month_lengths year) = 12" "\<forall>x\<in>set (month_lengths year). 0 \<le> x"
  by (simp_all add: month_lengths_def)

lemma clock_less_day:
  fixes d h m s d' h' m' s' :: int
  assumes "d + 1 \<le> d'" "h \<le> 23" "m \<le> 59" "s \<le> 59" "0 \<le> h'" "0 \<le> m'" "0 \<le> s'"
  shows "((d * 24 + h) * 60 + m) * 60 + s < ((d' * 24 + h') * 60 + m') * 60 + s'"
  using assms by (simp add: algebra_simps)

lemma clock_less_time:
  fixes d h m s h' m' s' :: int
  assumes "h < h' \<or> h = h' \<and> (m < m' \<or> m = m' \<and> s < s')"
    and "m \<le> 59" "s \<le> 59" "0 \<le> m'" "0 \<le> s'"
  shows "((d * 24 + h) * 60 + m) * 60 + s < ((d * 24 + h') * 60 + m') * 60 + s'"
  using assms by (auto simp: algebra_simps)

lemma second_of_year_mono:
  assumes "calendar_time year t" and "calendar_time year t'" and "earlier t t'"
  shows "second_of_year year t < second_of_year year t'"
proof -
  let ?d = "sum_list (take (nat (tm_mon t)) (month_lengths year)) + (tm_mday t - 1)"
  let ?d' = "sum_list (take (nat (tm_mon t')) (month_lengths year)) + (tm_mday t' - 1)"
  note c = assms(1) [unfolded calendar_time_def] and c' = assms(2) [unfolded calendar_time_def]
  show ?thesis
  proof (cases "tm_mon t < tm_mon t'")
    case True
    then have "nat (tm_mon t) < nat (tm_mon t')" "nat (tm_mon t') \<le> length (month_lengths year)"
      using c c' by (auto simp: month_lengths_facts)
    then have "sum_list (take (nat (tm_mon t)) (month_lengths year)) +
        month_lengths year ! nat (tm_mon t) \<le> sum_list (take (nat (tm_mon t')) (month_lengths year))"
      using month_lengths_facts(2) by (intro prefix_sum_mono) auto
    then have "?d + 1 \<le> ?d'" using c c' by linarith
    then show ?thesis
      using c c' unfolding second_of_year_def by (intro clock_less_day) auto
  next
    case False
    then have m: "tm_mon t = tm_mon t'" using assms(3) by (auto simp: earlier_def)
    show ?thesis
    proof (cases "tm_mday t < tm_mday t'")
      case True
      then have "?d + 1 \<le> ?d'" using m by simp
      then show ?thesis
        using c c' unfolding second_of_year_def by (intro clock_less_day) auto
    next
      case False
      then have d: "tm_mday t = tm_mday t'" using assms(3) m by (auto simp: earlier_def)
      have "tm_hour t < tm_hour t' \<or> tm_hour t = tm_hour t' \<and>
          (tm_min t < tm_min t' \<or> tm_min t = tm_min t' \<and> tm_sec t < tm_sec t')"
        using assms(3) m d by (auto simp: earlier_def)
      then show ?thesis
        using c c' unfolding second_of_year_def m d by (intro clock_less_time) auto
    qed
  qed
qed

lemma earlier_total:
  "earlier t t' \<or> earlier t' t \<or>
   (tm_mon t = tm_mon t' \<and> tm_mday t = tm_mday t' \<and> tm_hour t = tm_hour t' \<and>
    tm_min t = tm_min t' \<and> tm_sec t = tm_sec t')"
  by (auto simp: earlier_def)

lemma second_of_year_order:
  assumes "calendar_time year t" and "calendar_time year t'"
  shows "second_of_year year t < second_of_year year t' \<longleftrightarrow> earlier t t'"
proof
  assume "earlier t t'"
  with assms show "second_of_year year t < second_of_year year t'"
    by (rule second_of_year_mono)
next
  assume less: "second_of_year year t < second_of_year year t'"
  show "earlier t t'"
  proof (rule ccontr)
    assume "\<not> earlier t t'"
    then consider "earlier t' t"
      | "tm_mon t = tm_mon t' \<and> tm_mday t = tm_mday t' \<and> tm_hour t = tm_hour t' \<and>
         tm_min t = tm_min t' \<and> tm_sec t = tm_sec t'"
      using earlier_total [of t t'] by blast
    then show False
    proof cases
      case 1
      then have "second_of_year year t' < second_of_year year t"
        using assms by (intro second_of_year_mono)
      with less show False by simp
    next
      case 2
      then have "second_of_year year t = second_of_year year t'"
        by (simp add: second_of_year_def)
      with less show False by simp
    qed
  qed
qed

lemmas parse_defs = parse_timestamp_def timestamp_format_def month_name_def ab_month_name_def
  match_string_def tolower_def get_number_def isspace_def isdigit_def

lemma toSeconds_calendar:
  assumes "fst (parse_timestamp ts year) = t" and "0 \<le> tm_mon t" and "tm_mon t \<le> 11"
  shows "toSeconds z ts year = year_start year + second_of_year year t - z"
proof -
  have "tm_year t = year - 1900"
    using assms(1) strptime_year [of ts timestamp_format] by (auto simp: parse_timestamp_def)
  then show ?thesis
    using assms by (simp add: toSeconds_parse mktime_calendar)
qed

lemma parse_samples:
  "parse_timestamp ''Jun 10 03:32:36'' year =
     (\<lparr>tm_sec = 36, tm_min = 32, tm_hour = 3, tm_mday = 10, tm_mon = 5, tm_year = year - 1900\<rparr>,
      Some [])"
  "parse_timestamp ''Jun 10 03:32:40'' year =
     (\<lparr>tm_sec = 40, tm_min = 32, tm_hour = 3, tm_mday = 10, tm_mon = 5, tm_year = year - 1900\<rparr>,
      Some [])"
  "parse_timestamp ''Feb 28 23:59:59'' year =
     (\<lparr>tm_sec = 59, tm_min = 59, tm_hour = 23, tm_mday = 28, tm_mon = 1, tm_year = year - 1900\<rparr>,
      Some [])"
  "parse_timestamp ''Mar 1 00:00:00'' year =
     (\<lparr>tm_sec = 0, tm_min = 0, tm_hour = 0, tm_mday = 1, tm_mon = 2, tm_year = year - 1900\<rparr>,
      Some [])"
  "parse_timestamp ''Jan 1 00:00:00'' year =
     (\<lparr>tm_sec = 0, tm_min = 0, tm_hour = 0, tm_mday = 1, tm_mon = 0, tm_year = year - 1900\<rparr>,
      Some [])"
  "parse_timestamp ''Dec 31 23:59:61'' year =
     (\<lparr>tm_sec = 61, tm_min = 59, tm_hour = 23, tm_mday = 31, tm_mon = 11, tm_year = year - 1900\<rparr>,
      Some [])"
  "parse_timestamp ''Jun 10 03:32:xx'' year =
     (\<lparr>tm_sec = 0, tm_min = 32, tm_hour = 3, tm_mday = 10, tm_mon = 5, tm_year = year - 1900\<rparr>,
      None)"
  by (simp_all add: parse_defs)

text \<open>
  Claim C6. For two timestamps that are parsed and are times of the assumed year,
  the ordinals are in the chronological order of the timestamps, strictly, and their
  difference is the number of seconds between the two times. In particular the
  ordinal of \<open>Jun 10 03:32:36\<close> is below that of \<open>Jun 10 03:32:40\<close>, by exactly 4.
  This holds for every assumed year and every zone of the clock.
\<close>

theorem timestamp_order:
  assumes "parse_timestamp s year = (t, Some r)" and "parse_timestamp s' year = (t', Some r')"
    and "calendar_time year t" and "calendar_time year t'"
  shows "(toSeconds z s year < toSeconds z s' year \<longleftrightarrow> earlier t t') \<and>
         toSeconds z s' year - toSeconds z s year =
           second_of_year year t' - second_of_year year t \<and>
         toSeconds z ''Jun 10 03:32:36'' 2021 < toSeconds z ''Jun 10 03:32:40'' 2021 \<and>
         toSeconds z ''Jun 10 03:32:40'' 2021 - toSeconds z ''Jun 10 03:32:36'' 2021 = 4"
proof -
  have a: "toSeconds z s year = year_start year + second_of_year year t - z"
    using assms(1,3) by (intro toSeconds_calendar) (simp_all add: calendar_time_def)
  have b: "toSeconds z s' year = year_start year + second_of_year year t' - z"
    using assms(2,4) by (intro toSeconds_calendar) (simp_all add: calendar_time_def)
  have c: "toSeconds z ''Jun 10 03:32:36'' 2021 =
      year_start 2021 + second_of_year 2021
        \<lparr>tm_sec = 36, tm_min = 32, tm_hour = 3, tm_mday = 10, tm_mon = 5, tm_year = 2021 - 1900\<rparr> - z"
    by (intro toSeconds_calendar) (simp_all add: parse_samples)
  have d: "toSeconds z ''Jun 10 03:32:40'' 2021 =
      year_start 2021 + second_of_year 2021
        \<lparr>tm_sec = 40, tm_min = 32, tm_hour = 3, tm_mday = 10, tm_mon = 5, tm_year = 2021 - 1900\<rparr> - z"
    by (intro toSeconds_calendar) (simp_all add: parse_samples)
  show ?thesis
    using second_of_year_order [OF assms(3,4)]
    by (simp add: a b c d) (simp add: second_of_year_def)
qed

lemma calendar_samples:
  "calendar_time 2021
     \<lparr>tm_sec = 59, tm_min = 59, tm_hour = 23, tm_mday = 28, tm_mon = 1, tm_year = 2021 - 1900\<rparr>"
  "calendar_time 2021
     \<lparr>tm_sec = 0, tm_min = 0, tm_hour = 0, tm_mday = 1, tm_mon = 2, tm_year = 2021 - 1900\<rparr>"
  by (simp_all add: calendar_time_def month_lengths_def leapyear_def)

text \<open>Across the end of February 2021: one second from 23:59:59 to midnight.\<close>

theorem timestamp_order_witness:
  "toSeconds 0 ''Feb 28 23:59:59'' 2021 < toSeconds 0 ''Mar 1 00:00:00'' 2021 \<and>
   toSeconds 0 ''Mar 1 00:00:00'' 2021 - toSeconds 0 ''Feb 28 23:59:59'' 2021 = 1"
  using timestamp_order [OF parse_samples(3) parse_samples(4) calendar_samples, of 0]
  by (simp add: earlier_def second_of_year_def month_lengths_def leapyear_def)

lemma prefix_sum_le:
  fixes xs :: "int list"
  assumes "i \<le> j" and "\<forall>x\<in>set xs. 0 \<le> x"
  shows "0 \<le> sum_list (take i xs)" and "sum_list (take i xs) \<le> sum_list (take j xs)"
proof -
  show "0 \<le> sum_list (take i xs)"
    using assms(2) by (intro sum_list_nonneg) (auto dest: in_set_takeD)
  have "take j xs = take i xs @ take (j - i) (drop i xs)"
    using assms(1) take_add [of i "j - i" xs] by simp
  moreover have "0 \<le> sum_list (take (j - i) (drop i xs))"
    using assms(2) by (intro sum_list_nonneg) (auto dest: in_set_takeD in_set_dropD)
  ultimately show "sum_list (take i xs) \<le> sum_list (take j xs)" by simp
qed

lemma clock_bounds:
  fixes d h m s D md :: int
  assumes "0 \<le> d" "d \<le> D" "0 \<le> md" "md \<le> 31" "0 \<le> h" "h \<le> 23" "0 \<le> m" "m \<le> 59"
    "0 \<le> s" "s \<le> 61"
  shows "- 86400 \<le> (((d + (md - 1)) * 24 + h) * 60 + m) * 60 + s"
    and "(((d + (md - 1)) * 24 + h) * 60 + m) * 60 + s \<le>
         (((D + (31 - 1)) * 24 + 23) * 60 + 59) * 60 + 61"
  using assms by (simp_all add: algebra_simps)

text \<open>
  Claim C9 does not hold as stated. \<open>Jun 10 03:32:xx\<close> does not match the grammar,
  and \<open>toSeconds\<close> returns the ordinal of \<open>Jun 10 03:32:00\<close> for it: the value of a
  well-formed timestamp, not an error.
\<close>

theorem unparsed_timestamp_ordinal:
  "snd (parse_timestamp ''Jun 10 03:32:xx'' 2021) = None \<and>
   toSeconds 0 ''Jun 10 03:32:xx'' 2021 = 1623295920 \<and>
   toSeconds 0 ''Jun 10 03:32:00'' 2021 = 1623295920"
  by (simp add: parse_samples) (simp add: timestamp_defs)

text \<open>
  Claim C9, amended. \<open>toSeconds\<close> never fails and has no error value. The result of
  \<open>strptime\<close> is not looked at: for every string, matched or not, the ordinal is
  that of the fields read before the mismatch, the others zero. It lies between the
  ordinal of \<open>Jan 1 00:00:00\<close> less one day and that of \<open>Dec 31 23:59:61\<close> of the
  assumed year, as the ordinals of well-formed timestamps do.
\<close>

theorem toSeconds_unparsed:
  "toSeconds z ts year = mktime z (fst (parse_timestamp ts year)) \<and>
   toSeconds z ''Jan 1 00:00:00'' year - 86400 \<le> toSeconds z ts year \<and>
   toSeconds z ts year \<le> toSeconds z ''Dec 31 23:59:61'' year"
proof -
  let ?t = "fst (parse_timestamp ts year)"
  have "in_range \<lparr>tm_sec = 0, tm_min = 0, tm_hour = 0, tm_mday = 0, tm_mon = 0,
      tm_year = year - 1900\<rparr>"
    by (simp add: in_range_def)
  then have "in_range ?t"
    unfolding parse_timestamp_def by (rule strptime_in_range)
  then have r: "0 \<le> tm_mon ?t" "tm_mon ?t \<le> 11" "0 \<le> tm_mday ?t" "tm_mday ?t \<le> 31"
    "0 \<le> tm_hour ?t" "tm_hour ?t \<le> 23" "0 \<le> tm_min ?t" "tm_min ?t \<le> 59"
    "0 \<le> tm_sec ?t" "tm_sec ?t \<le> 61"
    by (simp_all add: in_range_def)
  have a: "toSeconds z ts year = year_start year + second_of_year year ?t - z"
    using r(1,2) by (intro toSeconds_calendar) simp_all
  have lo: "toSeconds z ''Jan 1 00:00:00'' year = year_start year - z"
    using toSeconds_calendar [of "''Jan 1 00:00:00''" year _ z]
    by (simp add: parse_samples second_of_year_def)
  have hi: "toSeconds z ''Dec 31 23:59:61'' year =
      year_start year +
      ((((sum_list (take 11 (month_lengths year)) + (31 - 1)) * 24 + 23) * 60 + 59) * 60 + 61) - z"
    using toSeconds_calendar [of "''Dec 31 23:59:61''" year _ z]
    by (simp add: parse_samples second_of_year_def)
  have "nat (tm_mon ?t) \<le> 11" using r(2) by simp
  note s = prefix_sum_le [OF this month_lengths_facts(2) [of year]]
  have "- 86400 \<le> second_of_year year ?t"
    unfolding second_of_year_def using s r by (intro clock_bounds(1)) auto
  moreover have "second_of_year year ?t \<le>
      ((((sum_list (take 11 (month_lengths year)) + (31 - 1)) * 24 + 23) * 60 + 59) * 60 + 61)"
    unfolding second_of_year_def using s r by (intro clock_bounds(2)) auto
  ultimately show ?thesis
    by (simp add: a lo hi toSeconds_parse [symmetric])
qed

text \<open>A string with no timestamp in it gets an ordinal of that range.\<close>

theorem toSeconds_unparsed_witness:
  "toSeconds 0 ''Jan 1 00:00:00'' 2021 - 86400 \<le> toSeconds 0 ''no timestamp'' 2021 \<and>
   toSeconds 0 ''no timestamp'' 2021 \<le> toSeconds 0 ''Dec 31 23:59:61'' 2021"
  using toSeconds_unparsed [of 0 "''no timestamp''" 2021] by simp

end
